theory Spec2Isabelle
  imports Complex_Main "HOL-Library.Word" "HOL-Library.Log_Nat" "HOL-Library.Multiset"
begin

section \<open>Strings\<close>

text \<open>
  A JavaScript string is a sequence of UTF-16 code units; \<open>charAt\<close>, \<open>includes\<close> and
  the regular expression of \<open>maskPhone\<close> (which has no \<open>u\<close> flag) all work on code units.
\<close>

type_synonym jsstring = "16 word list"

definition charAt :: "jsstring \<Rightarrow> nat \<Rightarrow> jsstring" where
  "charAt s i = (if i < length s then [s ! i] else [])"

text \<open>\<open>s.includes(t)\<close>: \<open>t\<close> occurs in \<open>s\<close> at some position.\<close>

fun str_includes :: "jsstring \<Rightarrow> jsstring \<Rightarrow> bool" where
  "str_includes [] t = (t = [])"
| "str_includes (c # cs) t = (take (length t) (c # cs) = t \<or> str_includes cs t)"

subsection \<open>Display masking (App.tsx, lines 11 to 21)\<close>

definition asterisk :: "16 word" where
  "asterisk = 0x2A"

text \<open>\<open>if (!name) return ''; return name.charAt(0) + '**';\<close>\<close>

definition maskName :: "jsstring \<Rightarrow> jsstring" where
  "maskName name = (if name = [] then [] else charAt name 0 @ [asterisk, asterisk])"

text \<open>The class \<open>\d\<close> of a regular expression without the \<open>u\<close> flag: the code units of 0 to 9.\<close>

definition is_digit :: "16 word \<Rightarrow> bool" where
  "is_digit c = (0x30 \<le> c \<and> c \<le> 0x39)"

text \<open>
  The pattern \<open>(\d{3})\d{4}(\d{4})\<close> matches at the start of \<open>s\<close> exactly when the first
  eleven code units of \<open>s\<close> are digits; it has no alternative and no variable repetition.
\<close>

definition phone_match_here :: "jsstring \<Rightarrow> bool" where
  "phone_match_here s = (11 \<le> length s \<and> list_all is_digit (take 11 s))"

text \<open>
  \<open>phone.replace(/(\d{3})\d{4}(\d{4})/, '$1****$2')\<close>: the pattern is not global and not
  anchored, so the leftmost match is replaced by group 1, four asterisks and group 2, and the
  text before and after the match is kept. Without a match the string is returned as it is.
\<close>

fun phone_replace :: "jsstring \<Rightarrow> jsstring" where
  "phone_replace [] = []"
| "phone_replace (c # cs) =
     (if phone_match_here (c # cs)
      then take 3 (c # cs) @ [asterisk, asterisk, asterisk, asterisk]
           @ take 4 (drop 7 (c # cs)) @ drop 11 (c # cs)
      else c # phone_replace cs)"

text \<open>\<open>if (!phone) return ''; return phone.replace(...)\<close>\<close>

definition maskPhone :: "jsstring \<Rightarrow> jsstring" where
  "maskPhone phone = (if phone = [] then [] else phone_replace phone)"

text \<open>An 11-digit phone number: exactly eleven code units, all digits.\<close>

definition eleven_digits :: "jsstring \<Rightarrow> bool" where
  "eleven_digits s = (length s = 11 \<and> list_all is_digit s)"

text \<open>The string contains a run of eleven consecutive digits somewhere.\<close>

definition has_digit_run :: "jsstring \<Rightarrow> bool" where
  "has_digit_run s = (\<exists>u d v. s = u @ d @ v \<and> eleven_digits d)"

text \<open>The code units of \<open>13800138000\<close> and of \<open>8613800138000\<close>.\<close>

definition phone_13800138000 :: jsstring where
  "phone_13800138000 =
     [0x31, 0x33, 0x38, 0x30, 0x30, 0x31, 0x33, 0x38, 0x30, 0x30, 0x30]"

definition phone_8613800138000 :: jsstring where
  "phone_8613800138000 = [0x38, 0x36] @ phone_13800138000"

text \<open>The code units of \<open>86138001380\<close>, the first eleven digits of \<open>8613800138000\<close>.\<close>

definition phone_86138001380 :: jsstring where
  "phone_86138001380 =
     [0x38, 0x36, 0x31, 0x33, 0x38, 0x30, 0x30, 0x31, 0x33, 0x38, 0x30]"

section \<open>Numbers\<close>

text \<open>
  A JavaScript number is an IEEE 754 double. Every finite double is an integer multiple of
  \<open>2\<^sup>-\<^sup>1\<^sup>0\<^sup>7\<^sup>4\<close>, the smallest positive double, so \<open>Fin k\<close> stands for the finite double
  \<open>k \<sqdot> 2\<^sup>-\<^sup>1\<^sup>0\<^sup>7\<^sup>4\<close>. The two zeros are one value here: the program never tells them apart
  (\<open>-0 || 0\<close> is \<open>0\<close>, sums and comparisons treat both alike).
\<close>

datatype jsnum = NaN | PInf | NInf | Fin int

text \<open>\<open>n / 2\<^sup>s\<close> rounded to the nearest integer, a tie to the even one.\<close>

definition round_shift :: "nat \<Rightarrow> nat \<Rightarrow> nat" where
  "round_shift n s =
     (let q = n div 2 ^ s; r = n mod 2 ^ s
      in if 2 * r < 2 ^ s then q
         else if 2 ^ s < 2 * r then q + 1
         else if even q then q else q + 1)"

text \<open>
  A magnitude rounded to 53 significant bits. In units of \<open>2\<^sup>-\<^sup>1\<^sup>0\<^sup>7\<^sup>4\<close> the subnormal
  doubles are the integers below \<open>2\<^sup>5\<^sup>2\<close>, so the same rounding covers them.
\<close>

definition round53 :: "nat \<Rightarrow> nat" where
  "round53 n = (let s = floorlog 2 n - 53 in round_shift n s * 2 ^ s)"

text \<open>
  The double nearest to the exact result \<open>k \<sqdot> 2\<^sup>-\<^sup>1\<^sup>0\<^sup>7\<^sup>4\<close>: round to nearest, ties to even; a
  result of magnitude \<open>2\<^sup>1\<^sup>0\<^sup>2\<^sup>4\<close> or more is an infinity.
\<close>

definition overflow_bound :: nat where
  "overflow_bound = 2 ^ 2098"

definition fl :: "int \<Rightarrow> jsnum" where
  "fl k = (let r = round53 (nat \<bar>k\<bar>)
           in if overflow_bound \<le> r then (if 0 < k then PInf else NInf)
              else Fin (if 0 \<le> k then int r else - int r))"

text \<open>The operator \<open>+\<close> on numbers.\<close>

fun js_add :: "jsnum \<Rightarrow> jsnum \<Rightarrow> jsnum" where
  "js_add NaN _ = NaN"
| "js_add _ NaN = NaN"
| "js_add PInf NInf = NaN"
| "js_add NInf PInf = NaN"
| "js_add PInf _ = PInf"
| "js_add _ PInf = PInf"
| "js_add NInf _ = NInf"
| "js_add _ NInf = NInf"
| "js_add (Fin a) (Fin b) = fl (a + b)"

fun js_neg :: "jsnum \<Rightarrow> jsnum" where
  "js_neg NaN = NaN"
| "js_neg PInf = NInf"
| "js_neg NInf = PInf"
| "js_neg (Fin a) = Fin (- a)"

text \<open>The operator \<open>-\<close>: in IEEE 754, \<open>a - b\<close> is \<open>a + (-b)\<close>.\<close>

definition js_sub :: "jsnum \<Rightarrow> jsnum \<Rightarrow> jsnum" where
  "js_sub a b = js_add a (js_neg b)"

text \<open>The operators \<open><\<close> and \<open>>=\<close>: every comparison with \<open>NaN\<close> is false.\<close>

fun js_less :: "jsnum \<Rightarrow> jsnum \<Rightarrow> bool" where
  "js_less NaN _ = False"
| "js_less _ NaN = False"
| "js_less PInf _ = False"
| "js_less _ NInf = False"
| "js_less NInf _ = True"
| "js_less _ PInf = True"
| "js_less (Fin a) (Fin b) = (a < b)"

definition js_ge :: "jsnum \<Rightarrow> jsnum \<Rightarrow> bool" where
  "js_ge a b = (a \<noteq> NaN \<and> b \<noteq> NaN \<and> \<not> js_less a b)"

text \<open>\<open>n || 0\<close> on a number: \<open>NaN\<close> and zero are falsy.\<close>

definition or_zero :: "jsnum \<Rightarrow> jsnum" where
  "or_zero n = (if n = NaN \<or> n = Fin 0 then Fin 0 else n)"

text \<open>
  The double \<open>m \<sqdot> 2\<^sup>e\<close>, for \<open>e \<ge> -1074\<close>; the integer \<open>n\<close> is \<open>dbl n 0\<close>.
\<close>

definition dbl :: "int \<Rightarrow> int \<Rightarrow> jsnum" where
  "dbl m e = Fin (m * 2 ^ nat (e + 1074))"

text \<open>
  The values that are doubles: the infinities, \<open>NaN\<close>, and the finite values that rounding
  leaves as they are.
\<close>

fun is_double :: "jsnum \<Rightarrow> bool" where
  "is_double (Fin k) = (fl k = Fin k)"
| "is_double _ = True"

section \<open>Values\<close>

text \<open>
  The values a field of a fetched row or of a customer can hold where the code coerces it.
\<close>

datatype jsval = JUndefined | JNull | JNumber jsnum | JString jsstring

text \<open>
  \<open>Number(v)\<close>. The conversion of a string to a number is the language's
  \<open>StringToNumber\<close>; it is the parameter \<open>stn\<close> (it yields \<open>NaN\<close> on a string that is not a
  numeric literal).
\<close>

fun Number :: "(jsstring \<Rightarrow> jsnum) \<Rightarrow> jsval \<Rightarrow> jsnum" where
  "Number stn JUndefined = NaN"
| "Number stn JNull = Fin 0"
| "Number stn (JNumber n) = n"
| "Number stn (JString s) = stn s"

section \<open>Data model\<close>

text \<open>
  Modelled from the spec: the declarations of \<open>Customer\<close>, \<open>RegionStat\<close>, \<open>ChartDataPoint\<close>
  and \<open>FormData\<close> (\<open>types.ts\<close>) are not among the sources; the records below have the fields
  that \<open>App.tsx\<close> reads and writes, with the types of sections 3 and 6 of the specification.
  \<open>capacity_mw\<close> is a value and \<open>demand_type\<close> may be absent, because the aggregation coerces
  both (\<open>Number(cust.capacity_mw) || 0\<close>, \<open>cust.demand_type || ''\<close>). The field \<open>id\<close> is
  \<open>cust_id\<close> here.
\<close>

record Customer =
  cust_id :: jsstring
  company_name :: jsstring
  province :: jsstring
  city :: jsstring
  capacity_mw :: jsval
  demand_type :: "jsstring option"
  industry :: jsstring
  contact :: jsstring
  phone :: jsstring

text \<open>
  The value of a \<open>cityMap\<close> entry. \<open>site_count\<close> is a natural number: it counts elements of
  an array, whose length is below \<open>2\<^sup>3\<^sup>2\<close>, where adding 1 to a double is exact.
\<close>

record CityEntry =
  site_count :: nat
  pv_mw :: jsnum
  storage_mw :: jsnum
  ev_mw :: jsnum
  other_mw :: jsnum
  total_mw :: jsnum

text \<open>\<open>{ city, ...data }\<close>\<close>

record RegionStat = CityEntry +
  city :: jsstring

record ChartDataPoint =
  name :: jsstring
  pv :: jsnum
  storage :: jsnum
  ev :: jsnum
  other :: jsnum

section \<open>Aggregation (App.tsx, lines 35 to 94)\<close>

text \<open>
  A \<open>Map\<close> iterates in the order in which its keys were first set, so the map is a list of
  key and entry pairs in that order, each key once.
\<close>

type_synonym cityMap = "(jsstring \<times> CityEntry) list"

definition map_has :: "cityMap \<Rightarrow> jsstring \<Rightarrow> bool" where
  "map_has m k = (k \<in> fst ` set m)"

text \<open>The entry object of a key is updated in place; its position in the map is kept.\<close>

definition map_modify :: "jsstring \<Rightarrow> (CityEntry \<Rightarrow> CityEntry) \<Rightarrow> cityMap \<Rightarrow> cityMap" where
  "map_modify k f m = map (\<lambda>(k', e). if k' = k then (k', f e) else (k', e)) m"

definition map_get :: "cityMap \<Rightarrow> jsstring \<Rightarrow> CityEntry option" where
  "map_get m k = map_of m k"

definition zero_entry :: CityEntry where
  "zero_entry = \<lparr> site_count = 0, pv_mw = Fin 0, storage_mw = Fin 0, ev_mw = Fin 0,
                   other_mw = Fin 0, total_mw = Fin 0 \<rparr>"

definition solar_marker :: jsstring where
  "solar_marker = [0x5149, 0x4F0F]"

definition storage_marker :: jsstring where
  "storage_marker = [0x50A8, 0x80FD]"

definition ev_marker :: jsstring where
  "ev_marker = [0x5145, 0x7535]"

text \<open>The chain of \<open>if (type.includes(...))\<close> of lines 65 to 73.\<close>

definition add_category :: "jsstring \<Rightarrow> jsnum \<Rightarrow> CityEntry \<Rightarrow> CityEntry" where
  "add_category type cap entry =
     (if str_includes type solar_marker then entry\<lparr>pv_mw := js_add (pv_mw entry) cap\<rparr>
      else if str_includes type storage_marker
      then entry\<lparr>storage_mw := js_add (storage_mw entry) cap\<rparr>
      else if str_includes type ev_marker then entry\<lparr>ev_mw := js_add (ev_mw entry) cap\<rparr>
      else entry\<lparr>other_mw := js_add (other_mw entry) cap\<rparr>)"

text \<open>The body of \<open>customers.forEach\<close> (lines 52 to 74), on the map built so far.\<close>

definition accumulate :: "(jsstring \<Rightarrow> jsnum) \<Rightarrow> cityMap \<Rightarrow> Customer \<Rightarrow> cityMap" where
  "accumulate stn m cust =
     (let city = Customer.city cust;
          cap = or_zero (Number stn (capacity_mw cust));
          type = (case demand_type cust of None \<Rightarrow> [] | Some t \<Rightarrow> t);
          m1 = (if \<not> map_has m city then m @ [(city, zero_entry)] else m)
      in map_modify city
           (\<lambda>entry. add_category type cap
              (entry\<lparr>site_count := site_count entry + 1,
                     total_mw := js_add (total_mw entry) cap\<rparr>))
           m1)"

definition build_cityMap :: "(jsstring \<Rightarrow> jsnum) \<Rightarrow> Customer list \<Rightarrow> cityMap" where
  "build_cityMap stn customers = foldl (accumulate stn) [] customers"

text \<open>
  \<open>Array.prototype.sort\<close> with a comparison function: \<open>x\<close> goes before \<open>y\<close> when
  \<open>comparefn(x, y) < 0\<close>, after it when \<open>comparefn(x, y) > 0\<close>, and a result of zero or \<open>NaN\<close>
  leaves them in their order (the sort is stable). For a consistent comparison function every
  such sort returns the same array; here it is an insertion sort. For an inconsistent one
  (a \<open>NaN\<close> key among three or more elements) the language leaves the order to the
  implementation, and this function is one of the orders an implementation may produce,
  not necessarily that of a given engine.
\<close>

definition js_positive :: "jsnum \<Rightarrow> bool" where
  "js_positive v = js_less (Fin 0) v"

fun insert_by :: "('a \<Rightarrow> 'a \<Rightarrow> jsnum) \<Rightarrow> 'a \<Rightarrow> 'a list \<Rightarrow> 'a list" where
  "insert_by cmp x [] = [x]"
| "insert_by cmp x (y # ys) =
     (if js_positive (cmp y x) then x # y # ys else y # insert_by cmp x ys)"

definition js_sort :: "('a \<Rightarrow> 'a \<Rightarrow> jsnum) \<Rightarrow> 'a list \<Rightarrow> 'a list" where
  "js_sort cmp xs = foldl (\<lambda>acc x. insert_by cmp x acc) [] xs"

definition to_RegionStat :: "jsstring \<times> CityEntry \<Rightarrow> RegionStat" where
  "to_RegionStat p =
     (case p of (c, d) \<Rightarrow>
        \<lparr> site_count = site_count d, pv_mw = pv_mw d, storage_mw = storage_mw d,
          ev_mw = ev_mw d, other_mw = other_mw d, total_mw = total_mw d, city = c \<rparr>)"

definition to_ChartDataPoint :: "jsstring \<times> CityEntry \<Rightarrow> ChartDataPoint" where
  "to_ChartDataPoint p =
     (case p of (c, d) \<Rightarrow>
        \<lparr> name = c, pv = pv_mw d, storage = storage_mw d, ev = ev_mw d, other = other_mw d \<rparr>)"

text \<open>\<open>(a, b) => b.total_mw - a.total_mw\<close>\<close>

definition cmp_total :: "RegionStat \<Rightarrow> RegionStat \<Rightarrow> jsnum" where
  "cmp_total a b = js_sub (total_mw b) (total_mw a)"

text \<open>\<open>(a, b) => (b.pv + b.storage + b.ev + b.other) - (a.pv + a.storage + a.ev + a.other)\<close>\<close>

definition chart_sum :: "ChartDataPoint \<Rightarrow> jsnum" where
  "chart_sum a = js_add (js_add (js_add (pv a) (storage a)) (ev a)) (other a)"

definition cmp_chart :: "ChartDataPoint \<Rightarrow> ChartDataPoint \<Rightarrow> jsnum" where
  "cmp_chart a b = js_sub (chart_sum b) (chart_sum a)"

definition newRegionStats :: "(jsstring \<Rightarrow> jsnum) \<Rightarrow> Customer list \<Rightarrow> RegionStat list" where
  "newRegionStats stn customers =
     (if length customers = 0 then []
      else js_sort cmp_total (map to_RegionStat (build_cityMap stn customers)))"

definition newChartData :: "(jsstring \<Rightarrow> jsnum) \<Rightarrow> Customer list \<Rightarrow> ChartDataPoint list" where
  "newChartData stn customers =
     (if length customers = 0 then []
      else js_sort cmp_chart (map to_ChartDataPoint (build_cityMap stn customers)))"

section \<open>Fetching the customers (App.tsx, lines 102 to 138)\<close>

text \<open>
  Modelled from the spec: a row of the remote collection (section 6), as \<open>select('*')\<close>
  returns it. The text columns \<open>industry\<close>, \<open>contact_name\<close> and \<open>contact_phone\<close> may be null;
  \<open>capacity_mw\<close> is any value, since the code passes it to \<open>Number\<close>.
\<close>

record Row =
  id_col :: jsstring
  company_name :: jsstring
  province :: jsstring
  city :: jsstring
  capacity_mw :: jsval
  demand_type :: "jsstring option"
  industry :: "jsstring option"
  contact_name :: "jsstring option"
  contact_phone :: "jsstring option"

text \<open>
  What \<open>await supabase.from(...).select('*').order(...)\<close> does: it throws, or it returns
  \<open>{ data, error }\<close>, where each of the two may be null.
\<close>

datatype list_result = ListThrew | ListReturned "Row list option" "jsstring option"

text \<open>\<open>s || ''\<close> on a string that may be null.\<close>

definition or_empty :: "jsstring option \<Rightarrow> jsstring" where
  "or_empty v = (case v of None \<Rightarrow> [] | Some s \<Rightarrow> s)"

text \<open>The function under \<open>data.map\<close> (lines 115 to 125).\<close>

definition mapRow :: "(jsstring \<Rightarrow> jsnum) \<Rightarrow> Row \<Rightarrow> Customer" where
  "mapRow stn d =
     \<lparr> cust_id = id_col d,
       Customer.company_name = Row.company_name d,
       Customer.province = Row.province d,
       Customer.city = Row.city d,
       Customer.capacity_mw = JNumber (Number stn (Row.capacity_mw d)),
       Customer.demand_type = Row.demand_type d,
       Customer.industry = or_empty (Row.industry d),
       contact = or_empty (contact_name d),
       phone = or_empty (contact_phone d) \<rparr>"

text \<open>
  \<open>fetchCustomers\<close>: the customer set it passes to \<open>setCustomers\<close>. \<open>MOCK_CUSTOMERS\<close> is a
  constant of \<open>constants.ts\<close>, which is not among the sources, so it is a parameter.
\<close>

definition fetchCustomers ::
  "(jsstring \<Rightarrow> jsnum) \<Rightarrow> Customer list \<Rightarrow> list_result \<Rightarrow> Customer list" where
  "fetchCustomers stn MOCK_CUSTOMERS res =
     (case res of
        ListThrew \<Rightarrow> MOCK_CUSTOMERS
      | ListReturned data error \<Rightarrow>
          (case error of
             Some e \<Rightarrow> MOCK_CUSTOMERS
           | None \<Rightarrow>
               (case data of
                  None \<Rightarrow> MOCK_CUSTOMERS
                | Some rows \<Rightarrow>
                    if length rows > 0 then map (mapRow stn) rows else MOCK_CUSTOMERS)))"

text \<open>The call failed: it threw, or its result carries an error.\<close>

definition list_failed :: "list_result \<Rightarrow> bool" where
  "list_failed res = (case res of ListThrew \<Rightarrow> True | ListReturned data error \<Rightarrow> error \<noteq> None)"

text \<open>The call returned no rows: no data, or an empty array.\<close>

definition list_empty :: "list_result \<Rightarrow> bool" where
  "list_empty res =
     (case res of ListThrew \<Rightarrow> False
      | ListReturned data error \<Rightarrow> error = None \<and> (data = None \<or> data = Some []))"

section \<open>Registration (App.tsx, lines 140 to 191)\<close>

text \<open>Modelled from the spec: \<open>FormData\<close> (\<open>types.ts\<close>), the payload of the form; all text.\<close>

record FormData =
  companyName :: jsstring
  province :: jsstring
  city :: jsstring
  address :: jsstring
  capacity :: jsstring
  demandType :: jsstring
  demandTypeOther :: jsstring
  industryType :: jsstring
  contactName :: jsstring
  contactPhone :: jsstring
  contactEmail :: jsstring

text \<open>The object \<open>dbPayload\<close> of lines 146 to 157.\<close>

record Payload =
  company_name :: jsstring
  province :: jsstring
  city :: jsstring
  address :: jsstring
  capacity_mw :: jsnum
  demand_type :: jsstring
  industry :: jsstring
  contact_name :: jsstring
  contact_phone :: jsstring
  contact_email :: jsstring

definition other_label :: jsstring where
  "other_label = [0x5176, 0x4ED6]"

text \<open>Lines 142 to 144; \<open>0x2D\<close> is the hyphen of the template string.\<close>

definition demandTypeString :: "FormData \<Rightarrow> jsstring" where
  "demandTypeString data =
     (if demandType data = other_label \<and> demandTypeOther data \<noteq> []
      then other_label @ [0x2D] @ demandTypeOther data
      else demandType data)"

text \<open>
  Lines 141 to 157. \<open>parseFloat\<close> is the language's function from strings to numbers; it is
  the parameter \<open>pf\<close>.
\<close>

definition dbPayload :: "(jsstring \<Rightarrow> jsnum) \<Rightarrow> FormData \<Rightarrow> Payload" where
  "dbPayload pf data =
     \<lparr> Payload.company_name = companyName data,
       Payload.province = FormData.province data,
       Payload.city = FormData.city data,
       Payload.address = FormData.address data,
       Payload.capacity_mw = or_zero (pf (capacity data)),
       Payload.demand_type = demandTypeString data,
       Payload.industry = industryType data,
       Payload.contact_name = contactName data,
       Payload.contact_phone = contactPhone data,
       contact_email = contactEmail data \<rparr>"

text \<open>
  \<open>updateLocalState\<close>. \<open>random_id\<close> is the string that \<open>Math.random().toString()\<close>
  returned.
\<close>

definition newCustomer :: "jsstring \<Rightarrow> Payload \<Rightarrow> Customer" where
  "newCustomer random_id payload =
     \<lparr> cust_id = random_id,
       Customer.company_name = Payload.company_name payload,
       Customer.province = Payload.province payload,
       Customer.city = Payload.city payload,
       Customer.capacity_mw = JNumber (Payload.capacity_mw payload),
       Customer.demand_type = Some (Payload.demand_type payload),
       Customer.industry = Payload.industry payload,
       contact = Payload.contact_name payload,
       phone = Payload.contact_phone payload \<rparr>"





section \<open>Notions used by the properties of the aggregation\<close>

text \<open>
  The two coercions of lines 54 and 55, the update of one entry by one customer (lines 62 to
  73), the entry of a city in a map with zeros for a city not yet seen (line 58), and the
  customers of one city, in their order.
\<close>

definition coerced_capacity :: "(jsstring \<Rightarrow> jsnum) \<Rightarrow> Customer \<Rightarrow> jsnum" where
  "coerced_capacity stn cust = or_zero (Number stn (Customer.capacity_mw cust))"

definition type_string :: "Customer \<Rightarrow> jsstring" where
  "type_string cust = or_empty (Customer.demand_type cust)"

definition entry_step :: "(jsstring \<Rightarrow> jsnum) \<Rightarrow> CityEntry \<Rightarrow> Customer \<Rightarrow> CityEntry" where
  "entry_step stn e cust =
     add_category (type_string cust) (coerced_capacity stn cust)
       (e\<lparr>site_count := site_count e + 1,
          total_mw := js_add (total_mw e) (coerced_capacity stn cust)\<rparr>)"

definition entry_or_zero :: "cityMap \<Rightarrow> jsstring \<Rightarrow> CityEntry" where
  "entry_or_zero m k = (case map_get m k of None \<Rightarrow> zero_entry | Some e \<Rightarrow> e)"

definition in_city :: "jsstring \<Rightarrow> Customer list \<Rightarrow> Customer list" where
  "in_city k customers = filter (\<lambda>c. Customer.city c = k) customers"

text \<open>
  The classification as the specification words it: the category of a demand type is the
  first of solar, storage and EV charging whose marker the string contains, and "other"
  when it contains none. \<open>contains s t\<close>: the string \<open>t\<close> occurs in \<open>s\<close>.
\<close>

datatype category = Solar | Storage | EVCharging | Other

definition contains :: "jsstring \<Rightarrow> jsstring \<Rightarrow> bool" where
  "contains s t = (\<exists>u v. s = u @ t @ v)"

definition classify :: "jsstring \<Rightarrow> category" where
  "classify t =
     (if contains t solar_marker then Solar
      else if contains t storage_marker then Storage
      else if contains t ev_marker then EVCharging
      else Other)"

text \<open>All five sums of an entry are doubles.\<close>

definition entry_doubles :: "CityEntry \<Rightarrow> bool" where
  "entry_doubles e =
     (is_double (pv_mw e) \<and> is_double (storage_mw e) \<and> is_double (ev_mw e)
      \<and> is_double (other_mw e) \<and> is_double (total_mw e))"

text \<open>\<open>pv_mw + storage_mw + ev_mw + other_mw\<close>, added from left to right.\<close>

definition category_sum :: "RegionStat \<Rightarrow> jsnum" where
  "category_sum r = js_add (js_add (js_add (pv_mw r) (storage_mw r)) (ev_mw r)) (other_mw r)"

text \<open>The chart point with the field values of a region, renamed.\<close>

definition chart_of_region :: "RegionStat \<Rightarrow> ChartDataPoint" where
  "chart_of_region r =
     \<lparr> name = RegionStat.city r, pv = pv_mw r, storage = storage_mw r, ev = ev_mw r,
       other = other_mw r \<rparr>"

text \<open>\<open>x >= 0\<close>\<close>

definition js_nonneg :: "jsnum \<Rightarrow> bool" where
  "js_nonneg x = js_ge x (Fin 0)"

text \<open>The sum of a list of numbers, added from left to right starting from 0.\<close>

definition float_sum :: "jsnum list \<Rightarrow> jsnum" where
  "float_sum xs = foldl js_add (Fin 0) xs"

text \<open>Every element's \<open>total_mw\<close> is \<open>>=\<close> that of every later element.\<close>

definition descending :: "RegionStat list \<Rightarrow> bool" where
  "descending rs = sorted_wrt (\<lambda>a b. js_ge (total_mw a) (total_mw b)) rs"


section \<open>Inputs of the examples\<close>

text \<open>The code units of \<open>138-0013-8000\<close>.\<close>

definition phone_dashed :: jsstring where
  "phone_dashed =
     [0x31, 0x33, 0x38, 0x2D, 0x30, 0x30, 0x31, 0x33, 0x2D, 0x38, 0x30, 0x30, 0x30]"

definition blank_customer :: Customer where
  "blank_customer =
     \<lparr> cust_id = [], Customer.company_name = [], Customer.province = [], Customer.city = [],
       Customer.capacity_mw = JNumber (Fin 0), Customer.demand_type = Some [],
       Customer.industry = [], contact = [], phone = [] \<rparr>"

definition blank_row :: Row where
  "blank_row =
     \<lparr> id_col = [], Row.company_name = [], Row.province = [], Row.city = [],
       Row.capacity_mw = JUndefined, Row.demand_type = None, Row.industry = None,
       contact_name = None, contact_phone = None \<rparr>"


text \<open>The string \<open>s\<close> has a match of the phone pattern at some position.\<close>

fun digit_run_from :: "jsstring \<Rightarrow> bool" where
  "digit_run_from [] = False"
| "digit_run_from (c # cs) = (phone_match_here (c # cs) \<or> digit_run_from cs)"

text \<open>
  A conversion of strings to numbers under which no string is numeric; the examples with
  numeric capacities do not use it.
\<close>

definition stn_none :: "jsstring \<Rightarrow> jsnum" where
  "stn_none s = NaN"

definition city_A :: jsstring where
  "city_A = [0x41]"

definition city_B :: jsstring where
  "city_B = [0x42]"

definition city_C :: jsstring where
  "city_C = [0x43]"

text \<open>A customer of the city \<open>k\<close> with the demand type \<open>t\<close> and the capacity \<open>v\<close>.\<close>

definition customer :: "jsstring \<Rightarrow> jsstring \<Rightarrow> jsval \<Rightarrow> Customer" where
  "customer k t v =
     blank_customer\<lparr>Customer.city := k, Customer.demand_type := Some t,
                    Customer.capacity_mw := v\<rparr>"

text \<open>The code units of the demand type of the specification's example, solar and storage.\<close>

definition pilot_type :: jsstring where
  "pilot_type = [0x5149, 0x4F0F, 0x2D, 0x50A8, 0x80FD, 0x8BD5, 0x70B9]"

text \<open>
  The doubles \<open>0.1\<close>, \<open>0.2\<close>, \<open>0.3\<close>, \<open>0.30000000000000004\<close>, \<open>0.5\<close>, \<open>0.6\<close> and
  \<open>0.6000000000000001\<close>, each as an integer times \<open>2\<^sup>-\<^sup>5\<^sup>5\<close>.
\<close>

definition d0_1 :: jsnum where
  "d0_1 = dbl 3602879701896397 (- 55)"

definition d0_2 :: jsnum where
  "d0_2 = dbl 7205759403792794 (- 55)"

definition d0_3 :: jsnum where
  "d0_3 = dbl 10808639105689190 (- 55)"

definition d0_5 :: jsnum where
  "d0_5 = dbl 18014398509481984 (- 55)"

definition d0_6 :: jsnum where
  "d0_6 = dbl 21617278211378380 (- 55)"

definition d0_6_up :: jsnum where
  "d0_6_up = dbl 21617278211378384 (- 55)"

definition d0_3_up :: jsnum where
  "d0_3_up = dbl 10808639105689192 (- 55)"

text \<open>
  One city with a solar site of 0.1 MW and storage sites of 0.2 MW and 0.3 MW; then a second
  city with solar 0.2, storage 0.3 and solar 0.1.
\<close>

definition rounding_customers :: "Customer list" where
  "rounding_customers =
     [customer city_A solar_marker (JNumber d0_1),
      customer city_A storage_marker (JNumber d0_2),
      customer city_A storage_marker (JNumber d0_3)]"

definition order_customers :: "Customer list" where
  "order_customers =
     rounding_customers @
     [customer city_B solar_marker (JNumber d0_2),
      customer city_B storage_marker (JNumber d0_3),
      customer city_B solar_marker (JNumber d0_1)]"

text \<open>
  Whole megawatts: the cities A, B and C with totals 10, 50 and 30, as in the example of the
  specification.
\<close>

definition whole_customers :: "Customer list" where
  "whole_customers =
     [customer city_A solar_marker (JNumber (dbl 10 0)),
      customer city_B storage_marker (JNumber (dbl 20 0)),
      customer city_C ev_marker (JNumber (dbl 30 0)),
      customer city_B pilot_type (JNumber (dbl 30 0))]"

text \<open>A city with the capacities \<open>Infinity\<close> and \<open>-Infinity\<close>, and a city with 1 MW.\<close>

definition nan_customers :: "Customer list" where
  "nan_customers =
     [customer city_A [] (JNumber PInf),
      customer city_A [] (JNumber NInf),
      customer city_B [] (JNumber (dbl 1 0))]"

section \<open>Display masking: properties\<close>

lemma phone_replace_no_run:
  "\<not> has_digit_run s \<Longrightarrow> phone_replace s = s"
proof (induction s)
  case Nil
  then show ?case by simp
next
  case (Cons c cs)
  have here: "\<not> phone_match_here (c # cs)"
  proof
    assume m: "phone_match_here (c # cs)"
    have "c # cs = [] @ take 11 (c # cs) @ drop 11 (c # cs)"
      by simp
    moreover have "eleven_digits (take 11 (c # cs))"
      using m by (simp add: phone_match_here_def eleven_digits_def)
    ultimately have "has_digit_run (c # cs)"
      unfolding has_digit_run_def by blast
    with Cons.prems show False by simp
  qed
  have "\<not> has_digit_run cs"
  proof
    assume "has_digit_run cs"
    then obtain u d v where "cs = u @ d @ v" "eleven_digits d"
      unfolding has_digit_run_def by blast
    then have "c # cs = (c # u) @ d @ v \<and> eleven_digits d"
      by simp
    then have "has_digit_run (c # cs)"
      unfolding has_digit_run_def by blast
    with Cons.prems show False by simp
  qed
  with Cons.IH here show ?case by simp
qed

lemma phone_replace_eleven:
  assumes "eleven_digits s"
  shows "phone_replace s = take 3 s @ [asterisk, asterisk, asterisk, asterisk] @ drop 7 s"
proof (cases s)
  case Nil
  with assms show ?thesis by (simp add: eleven_digits_def)
next
  case (Cons c cs)
  with assms have "phone_match_here (c # cs)"
    by (simp add: eleven_digits_def phone_match_here_def)
  moreover from assms Cons have "length (c # cs) = 11"
    by (simp add: eleven_digits_def)
  ultimately show ?thesis
    using Cons by simp
qed

text \<open>
  C10. For a non-empty name, \<open>maskName\<close> returns the first code unit followed by two
  asterisks, so two non-empty names with the same first code unit are masked to the same
  string, whatever their lengths; the empty name is masked to the empty string.
\<close>

theorem C10_maskName:
  "maskName [] = []
   \<and> (s \<noteq> [] \<longrightarrow> maskName s = [hd s, asterisk, asterisk])
   \<and> (s \<noteq> [] \<and> s' \<noteq> [] \<and> hd s = hd s' \<longrightarrow> maskName s = maskName s')"
  by (cases s; cases s') (simp_all add: maskName_def charAt_def)

theorem C10_maskName_witness:
  "maskName [] = []
   \<and> maskName [0x5F20, 0x4E09, 0x4E30] = [0x5F20, asterisk, asterisk]
   \<and> maskName [0x5F20, 0x4E09, 0x4E30] = maskName [0x5F20]"
  using C10_maskName [of "[0x5F20, 0x4E09, 0x4E30]" "[0x5F20]"] by (simp (no_asm_use))

lemma has_digit_run_iff: "has_digit_run s = digit_run_from s"
proof
  assume "digit_run_from s"
  then have "\<not> \<not> has_digit_run s"
  proof (induction s)
    case Nil
    then show ?case by simp
  next
    case (Cons c cs)
    show ?case
    proof (cases "phone_match_here (c # cs)")
      case True
      have "c # cs = [] @ take 11 (c # cs) @ drop 11 (c # cs)"
        by simp
      moreover have "eleven_digits (take 11 (c # cs))"
        using True by (simp add: phone_match_here_def eleven_digits_def)
      ultimately have "has_digit_run (c # cs)"
        unfolding has_digit_run_def by blast
      then show ?thesis by simp
    next
      case False
      with Cons.prems have "digit_run_from cs" by simp
      with Cons.IH have "has_digit_run cs" by simp
      then obtain u d v where "cs = u @ d @ v" "eleven_digits d"
        unfolding has_digit_run_def by blast
      then have "c # cs = (c # u) @ d @ v \<and> eleven_digits d"
        by simp
      then have "has_digit_run (c # cs)"
        unfolding has_digit_run_def by blast
      then show ?thesis by simp
    qed
  qed
  then show "has_digit_run s" by simp
next
  assume "has_digit_run s"
  then obtain u d v where s: "s = u @ d @ v" and d: "eleven_digits d"
    unfolding has_digit_run_def by blast
  have "digit_run_from (u @ d @ v)"
  proof (induction u)
    case Nil
    from d obtain c cs where "d = c # cs"
      by (cases d) (simp_all add: eleven_digits_def)
    with d show ?case
      by (simp add: phone_match_here_def eleven_digits_def)
  next
    case (Cons a u)
    then show ?case by simp
  qed
  with s show "digit_run_from s" by simp
qed

lemma digit_run_from_length: "digit_run_from s \<Longrightarrow> 11 \<le> length s"
  by (induction s) (auto simp: phone_match_here_def)

lemma phone_match_here_append:
  "11 \<le> length s \<Longrightarrow> phone_match_here (s @ t) = phone_match_here s"
  by (simp add: phone_match_here_def)

lemma phone_match_extend:
  assumes "eleven_digits d"
  shows "phone_match_here (a # u @ d @ v) = phone_match_here (a # u @ butlast d)"
proof -
  from assms have l: "length d = 11"
    by (simp add: eleven_digits_def)
  then have "d \<noteq> []"
    by auto
  then have d: "d = butlast d @ [last d]"
    by simp
  from l have len: "length (butlast d) = 10"
    by simp
  have "a # u @ d @ v = (a # u @ butlast d) @ ([last d] @ v)"
    by (subst d) simp
  moreover have "11 \<le> length (a # u @ butlast d)"
    using len by simp
  ultimately show ?thesis
    by (simp only: phone_match_here_append)
qed

lemma phone_replace_first:
  assumes d: "eleven_digits d"
  shows "\<not> has_digit_run (u @ butlast d)
    \<Longrightarrow> phone_replace (u @ d @ v)
        = u @ take 3 d @ [asterisk, asterisk, asterisk, asterisk] @ drop 7 d @ v"
proof (induction u)
  case Nil
  from d obtain c cs where cs: "d = c # cs"
    by (cases d) (simp_all add: eleven_digits_def)
  from d have len: "length d = 11" and dig: "list_all is_digit d"
    by (simp_all add: eleven_digits_def)
  have m: "phone_match_here (d @ v)"
    using len dig by (simp add: phone_match_here_def)
  have "phone_replace (d @ v)
        = take 3 (d @ v) @ [asterisk, asterisk, asterisk, asterisk]
          @ take 4 (drop 7 (d @ v)) @ drop 11 (d @ v)"
    using m by (simp add: cs)
  then show ?case
    using len by simp
next
  case (Cons a u)
  from Cons.prems have no: "\<not> phone_match_here (a # u @ butlast d)"
    and rest: "\<not> has_digit_run (u @ butlast d)"
    by (simp_all add: has_digit_run_iff)
  from no have "\<not> phone_match_here (a # u @ d @ v)"
    using phone_match_extend [OF d, of a u v] by blast
  with Cons.IH [OF rest] show ?case
    by simp
qed

lemma stars_not_digits:
  assumes "eleven_digits d"
  shows "take 3 d @ [asterisk, asterisk, asterisk, asterisk] @ drop 7 d \<noteq> d"
proof
  assume eq: "take 3 d @ [asterisk, asterisk, asterisk, asterisk] @ drop 7 d = d"
  from assms have len: "length d = 11" and dig: "list_all is_digit d"
    by (simp_all add: eleven_digits_def)
  have "(take 3 d @ [asterisk, asterisk, asterisk, asterisk] @ drop 7 d) ! 3 = asterisk"
    using len by (simp add: nth_append)
  with eq have "d ! 3 = asterisk"
    by simp
  moreover have "is_digit (d ! 3)"
    using dig len by (simp add: list_all_length)
  ultimately show False
    by (simp add: is_digit_def asterisk_def)
qed

lemma first_run_exists:
  "has_digit_run s
   \<Longrightarrow> \<exists>u d v. s = u @ d @ v \<and> eleven_digits d \<and> \<not> has_digit_run (u @ butlast d)"
proof (induction s)
  case Nil
  then show ?case by (simp add: has_digit_run_iff)
next
  case (Cons c cs)
  show ?case
  proof (cases "phone_match_here (c # cs)")
    case True
    let ?d = "take 11 (c # cs)"
    from True have e: "eleven_digits ?d"
      by (simp add: phone_match_here_def eleven_digits_def)
    then have "length ?d = 11"
      unfolding eleven_digits_def by blast
    then have "length (butlast ?d) = 10"
      by (simp only: length_butlast)
    then have "\<not> digit_run_from ([] @ butlast ?d)"
      using digit_run_from_length [of "butlast ?d"] by auto
    then have "\<not> has_digit_run ([] @ butlast ?d)"
      using has_digit_run_iff by blast
    moreover have "c # cs = [] @ ?d @ drop 11 (c # cs)"
      by simp
    ultimately show ?thesis
      using e by blast
  next
    case False
    with Cons.prems have "has_digit_run cs"
      by (simp add: has_digit_run_iff)
    with Cons.IH obtain u d v where s: "cs = u @ d @ v" and e: "eleven_digits d"
      and no: "\<not> has_digit_run (u @ butlast d)"
      by blast
    from False s have "\<not> phone_match_here (c # u @ d @ v)"
      by simp
    then have "\<not> phone_match_here (c # u @ butlast d)"
      using phone_match_extend [OF e, of c u v] by blast
    with no have "\<not> has_digit_run ((c # u) @ butlast d)"
      by (simp add: has_digit_run_iff)
    moreover from s have "c # cs = (c # u) @ d @ v"
      by simp
    ultimately show ?thesis
      using e by blast
  qed
qed

text \<open>
  C3 (amended). \<open>maskPhone\<close> maps a string of exactly eleven digits to its first three
  digits, four asterisks and its last four digits, and returns unchanged every string
  that contains no run of eleven consecutive digits. The pattern is not anchored: in a
  string that contains such a run, the leftmost eleven consecutive digits \<open>d\<close> (no run of
  eleven digits starts before them) are replaced by their first three digits, four
  asterisks and their last four digits, the text before and after them is kept, and the
  result differs from the input.
\<close>

theorem C3_maskPhone:
  "(eleven_digits s \<longrightarrow>
      maskPhone s = take 3 s @ [asterisk, asterisk, asterisk, asterisk] @ drop 7 s)
   \<and> (\<not> has_digit_run s \<longrightarrow> maskPhone s = s)
   \<and> (eleven_digits d \<and> \<not> has_digit_run (u @ butlast d) \<longrightarrow>
        maskPhone (u @ d @ v)
        = u @ take 3 d @ [asterisk, asterisk, asterisk, asterisk] @ drop 7 d @ v
        \<and> maskPhone (u @ d @ v) \<noteq> u @ d @ v)
   \<and> (has_digit_run s \<longrightarrow>
        maskPhone s \<noteq> s
        \<and> (\<exists>u d v. s = u @ d @ v \<and> eleven_digits d \<and> \<not> has_digit_run (u @ butlast d)))"
proof (intro conjI impI)
  assume e: "eleven_digits s"
  then have "s \<noteq> []"
    by (auto simp: eleven_digits_def)
  with e show "maskPhone s = take 3 s @ [asterisk, asterisk, asterisk, asterisk] @ drop 7 s"
    by (simp add: maskPhone_def phone_replace_eleven)
next
  assume "\<not> has_digit_run s"
  then show "maskPhone s = s"
    by (simp add: maskPhone_def phone_replace_no_run)
next
  assume h: "eleven_digits d \<and> \<not> has_digit_run (u @ butlast d)"
  then have "d \<noteq> []"
    by (auto simp: eleven_digits_def)
  then have "u @ d @ v \<noteq> []"
    by simp
  with h show m: "maskPhone (u @ d @ v)
        = u @ take 3 d @ [asterisk, asterisk, asterisk, asterisk] @ drop 7 d @ v"
    by (simp add: maskPhone_def phone_replace_first)
  from h stars_not_digits [of d] show "maskPhone (u @ d @ v) \<noteq> u @ d @ v"
    unfolding m by auto
next
  assume r: "has_digit_run s"
  from first_run_exists [OF r] obtain u d v where s: "s = u @ d @ v" and e: "eleven_digits d"
    and no: "\<not> has_digit_run (u @ butlast d)"
    by blast
  show "\<exists>u d v. s = u @ d @ v \<and> eleven_digits d \<and> \<not> has_digit_run (u @ butlast d)"
    using s e no by blast
  from e have "d \<noteq> []"
    by (auto simp: eleven_digits_def)
  then have "maskPhone (u @ d @ v)
        = u @ take 3 d @ [asterisk, asterisk, asterisk, asterisk] @ drop 7 d @ v"
    using e no by (simp add: maskPhone_def phone_replace_first)
  with stars_not_digits [OF e] show "maskPhone s \<noteq> s"
    unfolding s by auto
qed

theorem C3_maskPhone_witness:
  "eleven_digits phone_13800138000
   \<and> maskPhone phone_13800138000
       = [0x31, 0x33, 0x38, asterisk, asterisk, asterisk, asterisk, 0x38, 0x30, 0x30, 0x30]
   \<and> \<not> has_digit_run phone_dashed
   \<and> maskPhone phone_dashed = phone_dashed
   \<and> eleven_digits phone_86138001380
   \<and> \<not> has_digit_run ([0x2B] @ butlast phone_86138001380)
   \<and> maskPhone ([0x2B] @ phone_86138001380 @ [0x30, 0x30])
       = [0x2B, 0x38, 0x36, 0x31, asterisk, asterisk, asterisk, asterisk,
          0x31, 0x33, 0x38, 0x30, 0x30, 0x30]
   \<and> has_digit_run ([0x2B] @ phone_86138001380 @ [0x30, 0x30])
   \<and> maskPhone ([0x2B] @ phone_86138001380 @ [0x30, 0x30])
       \<noteq> [0x2B] @ phone_86138001380 @ [0x30, 0x30]"
proof -
  have e: "eleven_digits phone_13800138000"
    by (simp add: eleven_digits_def phone_13800138000_def is_digit_def)
  have n: "\<not> has_digit_run phone_dashed"
    by (simp add: has_digit_run_iff phone_dashed_def phone_match_here_def is_digit_def)
  have e2: "eleven_digits phone_86138001380"
    by (simp add: eleven_digits_def phone_86138001380_def is_digit_def)
  have n2: "\<not> has_digit_run ([0x2B] @ butlast phone_86138001380)"
    by (simp add: has_digit_run_iff phone_86138001380_def phone_match_here_def is_digit_def)
  have r: "has_digit_run ([0x2B] @ phone_86138001380 @ [0x30, 0x30])"
    by (simp add: has_digit_run_iff phone_86138001380_def phone_match_here_def is_digit_def)
  from e C3_maskPhone [of phone_13800138000]
  have "maskPhone phone_13800138000
          = take 3 phone_13800138000 @ [asterisk, asterisk, asterisk, asterisk]
            @ drop 7 phone_13800138000"
    by blast
  then have a: "maskPhone phone_13800138000
       = [0x31, 0x33, 0x38, asterisk, asterisk, asterisk, asterisk, 0x38, 0x30, 0x30, 0x30]"
    by (simp add: phone_13800138000_def)
  from n C3_maskPhone [of phone_dashed] have b: "maskPhone phone_dashed = phone_dashed"
    by blast
  from e2 n2 C3_maskPhone [of _ phone_86138001380 "[0x2B]" "[0x30, 0x30]"]
  have "maskPhone ([0x2B] @ phone_86138001380 @ [0x30, 0x30])
        = [0x2B] @ take 3 phone_86138001380 @ [asterisk, asterisk, asterisk, asterisk]
          @ drop 7 phone_86138001380 @ [0x30, 0x30]"
    by blast
  then have c: "maskPhone ([0x2B] @ phone_86138001380 @ [0x30, 0x30])
       = [0x2B, 0x38, 0x36, 0x31, asterisk, asterisk, asterisk, asterisk,
          0x31, 0x33, 0x38, 0x30, 0x30, 0x30]"
    by (simp add: phone_86138001380_def)
  from r C3_maskPhone [of "[0x2B] @ phone_86138001380 @ [0x30, 0x30]"]
  have d: "maskPhone ([0x2B] @ phone_86138001380 @ [0x30, 0x30])
       \<noteq> [0x2B] @ phone_86138001380 @ [0x30, 0x30]"
    by blast
  from e a n b e2 n2 c r d show ?thesis
    by (intro conjI)
qed

text \<open>
  C3 as stated fails: \<open>8613800138000\<close> is not an 11-digit string, yet it is not returned
  unchanged; its first eleven digits are masked as a phone number.
\<close>

theorem C3_counterexample:
  "\<not> eleven_digits phone_8613800138000
   \<and> maskPhone phone_8613800138000 \<noteq> phone_8613800138000
   \<and> maskPhone phone_8613800138000
       = [0x38, 0x36, 0x31, asterisk, asterisk, asterisk, asterisk,
          0x31, 0x33, 0x38, 0x30, 0x30, 0x30]"
  by (simp add: eleven_digits_def phone_8613800138000_def phone_13800138000_def maskPhone_def
      phone_match_here_def is_digit_def asterisk_def)

section \<open>Fetching and registration: properties\<close>

text \<open>
  C4. When the remote \<open>list()\<close> call fails (it throws or returns an error) or returns no
  rows, the customer set that \<open>fetchCustomers\<close> installs is the mock dataset itself.
\<close>

theorem C4_fetch_fallback:
  "list_failed res \<or> list_empty res \<Longrightarrow> fetchCustomers stn MOCK_CUSTOMERS res = MOCK_CUSTOMERS"
  by (auto simp: list_failed_def list_empty_def fetchCustomers_def
      split: list_result.splits option.splits)

theorem C4_fetch_fallback_witness:
  "list_failed ListThrew
   \<and> fetchCustomers (\<lambda>s. NaN) [blank_customer] ListThrew = [blank_customer]
   \<and> list_failed (ListReturned None (Some []))
   \<and> fetchCustomers (\<lambda>s. NaN) [blank_customer] (ListReturned None (Some [])) = [blank_customer]
   \<and> list_empty (ListReturned (Some []) None)
   \<and> fetchCustomers (\<lambda>s. NaN) [blank_customer] (ListReturned (Some []) None) = [blank_customer]"
proof -
  have a: "list_failed ListThrew"
    by (simp add: list_failed_def)
  have b: "list_failed (ListReturned None (Some []))"
    by (simp add: list_failed_def)
  have c: "list_empty (ListReturned (Some []) None)"
    by (simp add: list_empty_def)
  show ?thesis
    using a b c
      C4_fetch_fallback [of ListThrew "\<lambda>s. NaN" "[blank_customer]"]
      C4_fetch_fallback [of "ListReturned None (Some [])" "\<lambda>s. NaN" "[blank_customer]"]
      C4_fetch_fallback [of "ListReturned (Some []) None" "\<lambda>s. NaN" "[blank_customer]"]
    by simp
qed



text \<open>
  C9 (the code departs from it). A customer created from a registration never has the
  capacity \<open>NaN\<close>: the capacity is \<open>parseFloat(...) || 0\<close>. A customer mapped from a fetched
  row has the capacity \<open>Number(d.capacity_mw)\<close>, with no \<open>|| 0\<close>: for a row without
  \<open>capacity_mw\<close> the working set holds \<open>NaN\<close>, not 0.
\<close>

theorem C9_fetch_keeps_NaN:
  "Customer.capacity_mw (newCustomer random_id (dbPayload pf data)) \<noteq> JNumber NaN
   \<and> map Customer.capacity_mw
        (fetchCustomers stn MOCK_CUSTOMERS (ListReturned (Some [blank_row]) None))
      = [JNumber NaN]"
  by (simp add: newCustomer_def dbPayload_def or_zero_def fetchCustomers_def mapRow_def
      blank_row_def)


section \<open>Numbers: properties\<close>

lemma round_shift_exact: "2 ^ s dvd n \<Longrightarrow> round_shift n s * 2 ^ s = n"
  by (auto simp: round_shift_def Let_def mod_eq_0_iff_dvd)

lemma floorlog_le_53: "n < 2 ^ 53 \<Longrightarrow> floorlog 2 n \<le> 53"
  by (simp add: floorlog_le_iff)

lemma round53_exact:
  assumes "n < 2 ^ 53"
  shows "round53 (n * 2 ^ t) = n * 2 ^ t"
proof (cases "n = 0")
  case True
  then show ?thesis by (simp add: round53_def round_shift_def)
next
  case False
  then have "floorlog 2 (n * 2 ^ t) = floorlog 2 n + t"
    by simp
  with assms have "floorlog 2 (n * 2 ^ t) - 53 \<le> t"
    using floorlog_le_53 [of n] by simp
  then have "(2::nat) ^ (floorlog 2 (n * 2 ^ t) - 53) dvd n * 2 ^ t"
    by (simp add: le_imp_power_dvd dvd_mult)
  then show ?thesis
    by (simp add: round53_def Let_def round_shift_exact)
qed

lemma round53_zero: "round53 0 = 0"
  by (simp add: round53_def round_shift_def)

lemma round_shift_ge: "2 ^ (s + w) \<le> n \<Longrightarrow> 2 ^ w \<le> round_shift n s"
proof -
  assume a: "2 ^ (s + w) \<le> n"
  have "(2::nat) ^ (s + w) div 2 ^ s \<le> n div 2 ^ s"
    using a by (rule div_le_mono)
  then have "2 ^ w \<le> n div 2 ^ s"
    by (simp add: power_add)
  then show ?thesis
    by (auto simp: round_shift_def Let_def)
qed

lemma round53_pos: "0 < n \<Longrightarrow> 0 < round53 n"
proof -
  assume n: "0 < n"
  define s where "s = floorlog 2 n - 53"
  have "2 ^ (floorlog 2 n - 1) \<le> n"
    using floorlog_bounds [of n 2] n by simp
  moreover have "s + 0 \<le> floorlog 2 n - 1"
    by (simp add: s_def)
  ultimately have "2 ^ (s + 0) \<le> n"
    by (meson le_trans one_le_numeral power_increasing)
  then have "2 ^ 0 \<le> round_shift n s"
    by (rule round_shift_ge)
  then show ?thesis
    by (simp add: round53_def s_def [symmetric] Let_def)
qed

lemma round_shift_zero: "round_shift n 0 = n"
  by (simp add: round_shift_def)

lemma round_shift_le: "round_shift n s \<le> n div 2 ^ s + 1"
  by (simp add: round_shift_def Let_def)

lemma round53_repr: "\<exists>m t. round53 n = m * 2 ^ t \<and> m < 2 ^ 53"
proof (cases "floorlog 2 n \<le> 53")
  case True
  then have "n < 2 ^ 53"
    by (simp add: floorlog_le_iff)
  moreover from True have "round53 n = n * 2 ^ 0"
    by (simp add: round53_def round_shift_zero)
  ultimately show ?thesis by blast
next
  case False
  define s where "s = floorlog 2 n - 53"
  from False have fl: "floorlog 2 n = s + 53"
    by (simp add: s_def)
  have "n < 2 ^ (s + 53)"
    using floorlog_leD [of 2 n "s + 53"] fl by simp
  then have "n < 2 ^ 53 * 2 ^ s"
    by (simp add: power_add mult.commute)
  then have "n div 2 ^ s < 2 ^ 53"
    by (simp add: less_mult_imp_div_less)
  with round_shift_le [of n s] have le: "round_shift n s \<le> 2 ^ 53"
    by simp
  have r: "round53 n = round_shift n s * 2 ^ s"
    by (simp add: round53_def s_def Let_def)
  show ?thesis
  proof (cases "round_shift n s = 2 ^ 53")
    case True
    with r have "round53 n = 2 ^ 52 * 2 ^ (s + 1)"
      by simp
    moreover have "(2::nat) ^ 52 < 2 ^ 53"
      by simp
    ultimately show ?thesis by blast
  next
    case False
    with le have "round_shift n s < 2 ^ 53"
      by simp
    with r show ?thesis by blast
  qed
qed

lemma round53_idem: "round53 (round53 n) = round53 n"
proof -
  obtain m t where "round53 n = m * 2 ^ t" "m < 2 ^ 53"
    using round53_repr by blast
  then show ?thesis
    by (simp add: round53_exact)
qed

lemma overflow_bound_pos: "0 < overflow_bound"
  by (simp add: overflow_bound_def)

lemma fl_zero: "fl 0 = Fin 0"
  using overflow_bound_pos by (simp add: fl_def round53_zero)

lemma fl_not_NaN: "fl k \<noteq> NaN"
  by (simp add: fl_def Let_def)

lemma fl_idem: "fl k = Fin r \<Longrightarrow> fl r = Fin r"
proof -
  assume a: "fl k = Fin r"
  define n where "n = round53 (nat \<bar>k\<bar>)"
  from a have small: "\<not> overflow_bound \<le> n" and r: "r = (if 0 \<le> k then int n else - int n)"
    by (auto simp: fl_def Let_def n_def split: if_splits)
  from r have abs: "nat \<bar>r\<bar> = n"
    by (simp split: if_splits)
  have idem: "round53 n = n"
    by (simp add: n_def round53_idem)
  show "fl r = Fin r"
    using small r abs idem by (auto simp: fl_def Let_def split: if_splits)
qed

lemma js_positive_fl: "js_positive (fl k) = (0 < k)"
proof (cases "0 < k")
  case True
  then have "0 < round53 (nat \<bar>k\<bar>)"
    by (simp add: round53_pos)
  with True show ?thesis
    by (simp add: fl_def Let_def js_positive_def)
next
  case False
  then have "fl k = NInf \<or> (\<exists>r\<le>0. fl k = Fin r)"
    by (auto simp: fl_def Let_def round53_zero)
  with False show ?thesis
    by (auto simp: js_positive_def)
qed

lemma js_positive_sub:
  "a \<noteq> NaN \<Longrightarrow> b \<noteq> NaN \<Longrightarrow> js_positive (js_sub b a) = js_less a b"
proof (cases a; cases b)
  fix x y
  assume "a = Fin x" "b = Fin y"
  then show ?thesis
    using js_positive_fl [of "y - x"] by (simp add: js_sub_def)
qed (simp_all add: js_sub_def js_positive_def)

lemma is_double_fl: "is_double (fl k)"
  by (cases "fl k") (simp_all add: fl_idem)

lemma is_double_add: "is_double (js_add a b)"
  by (cases a; cases b) (simp_all add: is_double_fl)

lemma js_add_zero_right: "is_double x \<Longrightarrow> js_add x (Fin 0) = x"
  by (cases x) simp_all

lemma js_add_zero_left: "is_double x \<Longrightarrow> js_add (Fin 0) x = x"
  by (cases x) simp_all

lemma round_shift_scale:
  "round_shift (n * 2 ^ t) (s + t) = round_shift n s"
proof -
  have q: "n * 2 ^ t div 2 ^ (s + t) = n div 2 ^ s"
    by (simp add: power_add)
  have r: "n * 2 ^ t mod 2 ^ (s + t) = (n mod 2 ^ s) * 2 ^ t"
    by (simp add: power_add mult_mod_left mult.commute)
  have "(2 * ((n mod 2 ^ s) * 2 ^ t) < 2 ^ (s + t)) = (2 * (n mod 2 ^ s) < 2 ^ s)"
    by (simp add: power_add)
  moreover have "((2::nat) ^ (s + t) < 2 * ((n mod 2 ^ s) * 2 ^ t)) = (2 ^ s < 2 * (n mod 2 ^ s))"
    by (simp add: power_add)
  ultimately show ?thesis
    unfolding round_shift_def Let_def q r by simp
qed

lemma round53_scale: "round53 (n * 2 ^ t) = round53 n * 2 ^ t"
proof (cases "floorlog 2 n \<le> 53")
  case True
  then have n: "n < 2 ^ 53"
    by (simp add: floorlog_le_iff)
  then have "round53 (n * 2 ^ 0) = n * 2 ^ 0"
    by (rule round53_exact)
  with n show ?thesis
    by (simp add: round53_exact)
next
  case False
  then have pos: "0 < n"
    by (cases "n = 0") (simp_all add: floorlog_def)
  define s where "s = floorlog 2 n - 53"
  from False have "floorlog 2 (n * 2 ^ t) - 53 = s + t"
    using pos by (simp add: s_def)
  then have "round53 (n * 2 ^ t) = round_shift (n * 2 ^ t) (s + t) * 2 ^ (s + t)"
    by (simp add: round53_def Let_def)
  also have "\<dots> = round_shift n s * 2 ^ s * 2 ^ t"
    by (simp add: round_shift_scale power_add)
  finally show ?thesis
    by (simp add: round53_def s_def Let_def)
qed

subsection \<open>Doubles written as a multiple of a power of two\<close>

lemma fl_scaled:
  assumes "round53 (nat \<bar>m\<bar>) * 2 ^ t < overflow_bound"
  shows "fl (m * 2 ^ t)
         = Fin ((if 0 \<le> m then int (round53 (nat \<bar>m\<bar>)) else - int (round53 (nat \<bar>m\<bar>))) * 2 ^ t)"
proof -
  have "nat \<bar>m * 2 ^ t\<bar> = nat \<bar>m\<bar> * 2 ^ t"
    by (simp add: abs_mult nat_mult_distrib)
  then have r: "round53 (nat \<bar>m * 2 ^ t\<bar>) = round53 (nat \<bar>m\<bar>) * 2 ^ t"
    by (simp add: round53_scale)
  have z: "(0 \<le> m * 2 ^ t) = (0 \<le> m)" "(0 < m * 2 ^ t) = (0 < m)"
    by (simp_all add: zero_le_mult_iff zero_less_mult_iff)
  show ?thesis
    using assms unfolding fl_def Let_def r z by simp
qed

lemma overflow_bound_split: "overflow_bound = 2 ^ 64 * 2 ^ 2034"
  by (simp add: overflow_bound_def flip: power_add)

lemma js_add_dbl:
  assumes "- 1074 \<le> e" "e \<le> 960" "round53 (nat \<bar>a + b\<bar>) < 2 ^ 64"
  shows "js_add (dbl a e) (dbl b e)
         = dbl (if 0 \<le> a + b then int (round53 (nat \<bar>a + b\<bar>))
                else - int (round53 (nat \<bar>a + b\<bar>))) e"
proof -
  define t where "t = nat (e + 1074)"
  have "t \<le> 2034"
    using assms by (simp add: t_def)
  then have "(2::nat) ^ t \<le> 2 ^ 2034"
    by (rule power_increasing) simp
  with assms(3) have "round53 (nat \<bar>a + b\<bar>) * 2 ^ t < 2 ^ 64 * 2 ^ 2034"
    by (meson mult_less_le_imp_less zero_less_numeral zero_less_power le0)
  then have "round53 (nat \<bar>a + b\<bar>) * 2 ^ t < overflow_bound"
    by (simp only: overflow_bound_split)
  then have "fl ((a + b) * 2 ^ t)
     = Fin ((if 0 \<le> a + b then int (round53 (nat \<bar>a + b\<bar>))
             else - int (round53 (nat \<bar>a + b\<bar>))) * 2 ^ t)"
    by (rule fl_scaled)
  then show ?thesis
    by (simp add: dbl_def t_def [symmetric] distrib_right)
qed

lemma dbl_zero: "dbl 0 e = Fin 0"
  by (simp add: dbl_def)

lemma dbl_eq_iff: "(dbl a e = dbl b e) = (a = b)"
  by (simp add: dbl_def)

lemma dbl_eq_zero_iff: "(dbl a e = Fin 0) = (a = 0)"
  by (simp add: dbl_def)

lemma dbl_not_special: "dbl a e \<noteq> NaN" "dbl a e \<noteq> PInf" "dbl a e \<noteq> NInf"
  by (simp_all add: dbl_def)

lemma js_neg_dbl: "js_neg (dbl a e) = dbl (- a) e"
  by (simp add: dbl_def)

lemma js_less_dbl: "js_less (dbl a e) (dbl b e) = (a < b)"
  by (simp add: dbl_def)

lemma js_positive_dbl: "js_positive (dbl a e) = (0 < a)"
  by (simp add: dbl_def js_positive_def zero_less_mult_iff)


section \<open>Aggregation: the map of cities\<close>

lemma map_fst_map_modify: "map fst (map_modify k f m) = map fst m"
  by (induction m) (auto simp: map_modify_def)

lemma map_of_map_modify:
  "map_of (map_modify k f m) k' = (if k' = k then map_option f (map_of m k) else map_of m k')"
  by (induction m) (auto simp: map_modify_def)

lemma map_has_iff: "map_has m k = (map_of m k \<noteq> None)"
  by (simp add: map_has_def map_of_eq_None_iff)

lemma accumulate_keys:
  "map fst (accumulate stn m c)
   = (if map_has m (Customer.city c) then map fst m else map fst m @ [Customer.city c])"
  by (simp add: accumulate_def Let_def map_fst_map_modify)

lemma accumulate_lookup:
  "map_get (accumulate stn m c) k
   = (if k = Customer.city c then Some (entry_step stn (entry_or_zero m k) c) else map_get m k)"
proof (cases "map_has m (Customer.city c)")
  case True
  then obtain e where "map_of m (Customer.city c) = Some e"
    by (auto simp: map_has_iff)
  with True show ?thesis
    by (simp add: accumulate_def Let_def map_get_def map_of_map_modify entry_step_def
        entry_or_zero_def coerced_capacity_def type_string_def or_empty_def)
next
  case False
  then have none: "map_of m (Customer.city c) = None"
    by (simp add: map_has_iff)
  then have "Customer.city c \<notin> dom (map_of m)"
    by (simp add: domIff)
  then have "map_of (m @ [(Customer.city c, zero_entry)]) (Customer.city c) = Some zero_entry"
    by (simp add: map_add_def none)
  with False none show ?thesis
    by (simp add: accumulate_def Let_def map_get_def map_of_map_modify entry_step_def
        entry_or_zero_def coerced_capacity_def type_string_def or_empty_def map_add_def
        split: option.splits)
qed

lemma build_cityMap_snoc:
  "build_cityMap stn (cs @ [c]) = accumulate stn (build_cityMap stn cs) c"
  by (simp add: build_cityMap_def)

lemma build_cityMap_Nil: "build_cityMap stn [] = []"
  by (simp add: build_cityMap_def)


lemma build_keys_distinct: "distinct (map fst (build_cityMap stn cs))"
proof (induction cs rule: rev_induct)
  case Nil
  then show ?case by (simp add: build_cityMap_Nil)
next
  case (snoc c cs)
  then show ?case
    by (auto simp: build_cityMap_snoc accumulate_keys map_has_def)
qed

lemma in_city_empty: "k \<notin> Customer.city ` set cs \<Longrightarrow> in_city k cs = []"
  by (auto simp: in_city_def filter_empty_conv)

lemma in_city_snoc:
  "in_city k (cs @ [c]) = (if Customer.city c = k then in_city k cs @ [c] else in_city k cs)"
  by (simp add: in_city_def)

lemma build_lookup:
  "map_get (build_cityMap stn cs) k
   = (if k \<in> Customer.city ` set cs
      then Some (foldl (entry_step stn) zero_entry (in_city k cs)) else None)"
proof (induction cs rule: rev_induct)
  case Nil
  then show ?case by (simp add: build_cityMap_Nil map_get_def)
next
  case (snoc c cs)
  show ?case
  proof (cases "k = Customer.city c")
    case True
    then show ?thesis
      using snoc.IH
      by (auto simp: build_cityMap_snoc accumulate_lookup entry_or_zero_def in_city_snoc
          in_city_empty)
  next
    case False
    then show ?thesis
      using snoc.IH
      by (auto simp: build_cityMap_snoc accumulate_lookup in_city_snoc)
  qed
qed

section \<open>Aggregation: one customer\<close>

lemma str_includes_iff: "str_includes s t = contains s t"
proof
  assume "str_includes s t"
  then show "contains s t"
  proof (induction s)
    case Nil
    then show ?case by (simp add: contains_def)
  next
    case (Cons c cs)
    show ?case
    proof (cases "take (length t) (c # cs) = t")
      case True
      then have "c # cs = [] @ t @ drop (length t) (c # cs)"
        by (metis append_Nil append_take_drop_id)
      then show ?thesis
        unfolding contains_def by blast
    next
      case False
      with Cons.prems have "str_includes cs t" by simp
      with Cons.IH obtain u v where "cs = u @ t @ v"
        unfolding contains_def by blast
      then have "c # cs = (c # u) @ t @ v" by simp
      then show ?thesis
        unfolding contains_def by blast
    qed
  qed
next
  assume "contains s t"
  then obtain u v where s: "s = u @ t @ v"
    unfolding contains_def by blast
  have "str_includes (u @ t @ v) t"
  proof (induction u)
    case Nil
    show ?case
    proof (cases "t @ v")
      case Nil
      then show ?thesis by simp
    next
      case (Cons a list)
      have "take (length t) (t @ v) = t" by simp
      with Cons have "take (length t) (a # list) = t" by simp
      with Cons show ?thesis by simp
    qed
  next
    case (Cons a u)
    then show ?case by simp
  qed
  with s show "str_includes s t" by simp
qed

lemma add_category_classify:
  "add_category t cap e =
     (case classify t of
        Solar \<Rightarrow> e\<lparr>pv_mw := js_add (pv_mw e) cap\<rparr>
      | Storage \<Rightarrow> e\<lparr>storage_mw := js_add (storage_mw e) cap\<rparr>
      | EVCharging \<Rightarrow> e\<lparr>ev_mw := js_add (ev_mw e) cap\<rparr>
      | Other \<Rightarrow> e\<lparr>other_mw := js_add (other_mw e) cap\<rparr>)"
  by (simp add: add_category_def classify_def str_includes_iff)

lemma contains_Nil: "contains [] t = (t = [])"
  by (auto simp: contains_def)

text \<open>
  C2. Processing one customer changes the entry of its city only (created with zeros when
  the city is new): the site count goes up by one, the coerced capacity is added to the
  total and to the sum of exactly one category, the first of solar, storage and EV
  charging whose marker the demand type contains, or "other". A demand type with both the
  solar and the storage marker counts as solar; one with no marker, the empty one too,
  counts as "other".
\<close>

theorem C2_classification:
  "(let e = entry_or_zero m (Customer.city c);
        cap = coerced_capacity stn c;
        e' = e\<lparr>site_count := site_count e + 1, total_mw := js_add (total_mw e) cap\<rparr>
    in map_get (accumulate stn m c) (Customer.city c)
       = Some (case classify (type_string c) of
                 Solar \<Rightarrow> e'\<lparr>pv_mw := js_add (pv_mw e) cap\<rparr>
               | Storage \<Rightarrow> e'\<lparr>storage_mw := js_add (storage_mw e) cap\<rparr>
               | EVCharging \<Rightarrow> e'\<lparr>ev_mw := js_add (ev_mw e) cap\<rparr>
               | Other \<Rightarrow> e'\<lparr>other_mw := js_add (other_mw e) cap\<rparr>))
   \<and> (\<forall>k. k \<noteq> Customer.city c \<longrightarrow> map_get (accumulate stn m c) k = map_get m k)
   \<and> (contains t solar_marker \<and> contains t storage_marker \<longrightarrow> classify t = Solar)
   \<and> (\<not> contains t solar_marker \<and> \<not> contains t storage_marker \<and> \<not> contains t ev_marker
        \<longrightarrow> classify t = Other)
   \<and> classify [] = Other"
  by (simp add: accumulate_lookup entry_step_def add_category_classify Let_def classify_def
      contains_Nil solar_marker_def storage_marker_def ev_marker_def split: category.splits)

lemma entry_doubles_zero: "entry_doubles zero_entry"
  by (simp add: entry_doubles_def zero_entry_def fl_zero)

lemma entry_doubles_step: "entry_doubles e \<Longrightarrow> entry_doubles (entry_step stn e c)"
  by (simp add: entry_doubles_def entry_step_def add_category_def is_double_add)

lemma accumulate_eq:
  "accumulate stn m c
   = map_modify (Customer.city c) (\<lambda>e. entry_step stn e c)
       (if map_has m (Customer.city c) then m else m @ [(Customer.city c, zero_entry)])"
  by (simp add: accumulate_def Let_def entry_step_def coerced_capacity_def type_string_def
      or_empty_def)

lemma map_modify_doubles:
  "\<forall>p \<in> set m. entry_doubles (snd p) \<Longrightarrow> \<forall>e. entry_doubles e \<longrightarrow> entry_doubles (f e)
   \<Longrightarrow> \<forall>p \<in> set (map_modify k f m). entry_doubles (snd p)"
  by (auto simp: map_modify_def)

lemma build_doubles: "\<forall>p \<in> set (build_cityMap stn cs). entry_doubles (snd p)"
proof (induction cs rule: rev_induct)
  case Nil
  then show ?case by (simp add: build_cityMap_Nil)
next
  case (snoc c cs)
  show ?case
    unfolding build_cityMap_snoc accumulate_eq
    by (rule map_modify_doubles) (use snoc.IH in \<open>auto simp: entry_doubles_zero entry_doubles_step\<close>)
qed

lemma entry_step_zero_capacity:
  assumes "coerced_capacity stn c = Fin 0" "entry_doubles e"
  shows "entry_step stn e c = e\<lparr>site_count := site_count e + 1\<rparr>"
  using assms
  by (simp add: entry_step_def add_category_def entry_doubles_def js_add_zero_right)

lemma map_modify_cong:
  "\<forall>p \<in> set m. f (snd p) = g (snd p) \<Longrightarrow> map_modify k f m = map_modify k g m"
  by (auto simp: map_modify_def)

text \<open>
  C8. When the capacity of a customer fails the coercion to a number (it is absent or not
  numeric, so \<open>Number\<close> gives \<open>NaN\<close>), processing it after any customers \<open>cs\<close> adds 1 to the site
  count of its city (an entry of zeros is created for a new city) and leaves every sum of
  every city as it was. The model has no error result here: nothing on this path throws.
\<close>

theorem C8_failed_coercion:
  assumes "Number stn (Customer.capacity_mw c) = NaN"
  shows "build_cityMap stn (cs @ [c])
         = map_modify (Customer.city c) (\<lambda>e. e\<lparr>site_count := site_count e + 1\<rparr>)
             (if map_has (build_cityMap stn cs) (Customer.city c) then build_cityMap stn cs
              else build_cityMap stn cs @ [(Customer.city c, zero_entry)])"
proof -
  from assms have cap: "coerced_capacity stn c = Fin 0"
    by (simp add: coerced_capacity_def or_zero_def)
  have "\<forall>p \<in> set (if map_has (build_cityMap stn cs) (Customer.city c) then build_cityMap stn cs
              else build_cityMap stn cs @ [(Customer.city c, zero_entry)]).
          entry_step stn (snd p) c = (snd p)\<lparr>site_count := site_count (snd p) + 1\<rparr>"
    using build_doubles [of stn cs] cap
    by (auto simp: entry_step_zero_capacity entry_doubles_zero)
  then show ?thesis
    unfolding build_cityMap_snoc accumulate_eq by (rule map_modify_cong)
qed

section \<open>Sorting: properties\<close>

lemma mset_insert_by: "mset (insert_by cmp x ys) = add_mset x (mset ys)"
  by (induction ys) auto

lemma mset_foldl_insert_by:
  "mset (foldl (\<lambda>acc x. insert_by cmp x acc) acc xs) = mset acc + mset xs"
  by (induction xs arbitrary: acc) (auto simp: mset_insert_by)

lemma mset_js_sort: "mset (js_sort cmp xs) = mset xs"
  by (simp add: js_sort_def mset_foldl_insert_by)

lemma set_js_sort: "set (js_sort cmp xs) = set xs"
  using mset_js_sort [of cmp xs] by (metis set_mset_mset)

lemma set_insert_by: "set (insert_by cmp x ys) = insert x (set ys)"
  using mset_insert_by [of cmp x ys] by (metis set_mset_mset set_mset_add_mset_insert)

lemma insert_by_map:
  "\<forall>y \<in> set ys. js_positive (cmp' (f y) (f x)) = js_positive (cmp y x)
   \<Longrightarrow> insert_by cmp' (f x) (map f ys) = map f (insert_by cmp x ys)"
  by (induction ys) auto

lemma foldl_insert_by_map:
  "\<forall>a \<in> set acc \<union> set xs. \<forall>b \<in> set acc \<union> set xs.
      js_positive (cmp' (f a) (f b)) = js_positive (cmp a b)
   \<Longrightarrow> foldl (\<lambda>acc x. insert_by cmp' x acc) (map f acc) (map f xs)
       = map f (foldl (\<lambda>acc x. insert_by cmp x acc) acc xs)"
proof (induction xs arbitrary: acc)
  case Nil
  then show ?case by simp
next
  case (Cons x xs)
  have step: "insert_by cmp' (f x) (map f acc) = map f (insert_by cmp x acc)"
    by (rule insert_by_map) (use Cons.prems in auto)
  have "\<forall>a \<in> set (insert_by cmp x acc) \<union> set xs. \<forall>b \<in> set (insert_by cmp x acc) \<union> set xs.
          js_positive (cmp' (f a) (f b)) = js_positive (cmp a b)"
    using Cons.prems by (auto simp: set_insert_by)
  from Cons.IH [OF this] show ?case
    by (simp add: step)
qed

lemma js_sort_map:
  "\<forall>a \<in> set xs. \<forall>b \<in> set xs. js_positive (cmp' (f a) (f b)) = js_positive (cmp a b)
   \<Longrightarrow> js_sort cmp' (map f xs) = map f (js_sort cmp xs)"
  using foldl_insert_by_map [of "[]" xs cmp' f cmp] by (simp add: js_sort_def)

lemma js_less_trans: "js_less a b \<Longrightarrow> js_less b c \<Longrightarrow> js_less a c"
  by (cases a; cases b; cases c) simp_all

lemma js_less_total: "a \<noteq> NaN \<Longrightarrow> b \<noteq> NaN \<Longrightarrow> js_less a b \<or> js_less b a \<or> a = b"
  by (cases a; cases b) auto

lemma js_less_irrefl: "\<not> js_less a a"
  by (cases a) simp_all

lemma js_ge_trans: "js_ge a b \<Longrightarrow> js_ge b c \<Longrightarrow> js_ge a c"
  unfolding js_ge_def
  by (metis js_less_total js_less_trans)

lemma js_ge_total: "a \<noteq> NaN \<Longrightarrow> b \<noteq> NaN \<Longrightarrow> js_ge a b \<or> js_ge b a"
  unfolding js_ge_def
  by (metis js_less_trans js_less_irrefl)

lemma sorted_insert_by:
  assumes ok: "\<forall>y \<in> insert x (set ys). key y \<noteq> NaN"
    and cmp: "\<And>a b. cmp a b = js_sub (key b) (key a)"
    and sorted: "sorted_wrt (\<lambda>a b. js_ge (key a) (key b)) ys"
  shows "sorted_wrt (\<lambda>a b. js_ge (key a) (key b)) (insert_by cmp x ys)"
  using ok sorted
proof (induction ys)
  case Nil
  then show ?case by simp
next
  case (Cons y ys)
  have kx: "key x \<noteq> NaN" and ky: "key y \<noteq> NaN"
    using Cons.prems(1) by auto
  have pos: "js_positive (cmp y x) = js_less (key y) (key x)"
    using kx ky by (simp add: cmp js_positive_sub)
  show ?case
  proof (cases "js_positive (cmp y x)")
    case True
    with pos have lt: "js_less (key y) (key x)" by simp
    then have "\<not> js_less (key x) (key y)"
      using js_less_trans js_less_irrefl by blast
    with kx ky have xy: "js_ge (key x) (key y)"
      by (simp add: js_ge_def)
    have "\<forall>z \<in> set ys. js_ge (key x) (key z)"
      using Cons.prems(2) xy js_ge_trans by auto
    with xy True Cons.prems(2) show ?thesis by simp
  next
    case False
    with pos kx ky have yx: "js_ge (key y) (key x)"
      by (simp add: js_ge_def)
    have "sorted_wrt (\<lambda>a b. js_ge (key a) (key b)) (insert_by cmp x ys)"
      using Cons by simp
    with False yx Cons.prems(2) show ?thesis
      by (auto simp: set_insert_by)
  qed
qed

lemma sorted_foldl_insert_by:
  assumes cmp: "\<And>a b. cmp a b = js_sub (key b) (key a)"
  shows "\<forall>y \<in> set acc \<union> set xs. key y \<noteq> NaN
    \<Longrightarrow> sorted_wrt (\<lambda>a b. js_ge (key a) (key b)) acc
    \<Longrightarrow> sorted_wrt (\<lambda>a b. js_ge (key a) (key b)) (foldl (\<lambda>acc x. insert_by cmp x acc) acc xs)"
proof (induction xs arbitrary: acc)
  case Nil
  then show ?case by simp
next
  case (Cons x xs)
  have "sorted_wrt (\<lambda>a b. js_ge (key a) (key b)) (insert_by cmp x acc)"
    by (rule sorted_insert_by [where key = key]) (use Cons.prems cmp in auto)
  moreover have "\<forall>y \<in> set (insert_by cmp x acc) \<union> set xs. key y \<noteq> NaN"
    using Cons.prems(1) by (auto simp: set_insert_by)
  ultimately show ?case
    using Cons.IH by simp
qed

lemma sorted_js_sort:
  assumes "\<And>a b. cmp a b = js_sub (key b) (key a)" "\<forall>y \<in> set xs. key y \<noteq> NaN"
  shows "sorted_wrt (\<lambda>a b. js_ge (key a) (key b)) (js_sort cmp xs)"
  unfolding js_sort_def
  by (rule sorted_foldl_insert_by [where key = key]) (use assms in auto)

section \<open>Aggregation: properties\<close>

lemma newRegionStats_mset:
  "mset (newRegionStats stn cs) = mset (map to_RegionStat (build_cityMap stn cs))"
  by (cases cs) (simp_all add: newRegionStats_def mset_js_sort build_cityMap_Nil)

lemma newRegionStats_set:
  "set (newRegionStats stn cs) = to_RegionStat ` set (build_cityMap stn cs)"
  using newRegionStats_mset [of stn cs] by (metis set_mset_mset set_map)



lemma build_entry:
  assumes "(k, e) \<in> set (build_cityMap stn cs)"
  shows "e = foldl (entry_step stn) zero_entry (in_city k cs) \<and> k \<in> Customer.city ` set cs"
proof -
  from assms have "map_of (build_cityMap stn cs) k = Some e"
    by (simp add: build_keys_distinct)
  then have "map_get (build_cityMap stn cs) k = Some e"
    by (simp add: map_get_def)
  then show ?thesis
    by (simp add: build_lookup split: if_splits)
qed

lemma entry_total:
  "total_mw (foldl (entry_step stn) e cs)
   = foldl js_add (total_mw e) (map (coerced_capacity stn) cs)"
  by (induction cs arbitrary: e) (simp_all add: entry_step_def add_category_def)

lemma entry_count: "site_count (foldl (entry_step stn) e cs) = site_count e + length cs"
  by (induction cs arbitrary: e) (simp_all add: entry_step_def add_category_def)

lemma region_of_stats:
  assumes "r \<in> set (newRegionStats stn cs)"
  shows "\<exists>e. r = to_RegionStat (RegionStat.city r, e)
           \<and> (RegionStat.city r, e) \<in> set (build_cityMap stn cs)"
proof -
  from assms have "r \<in> to_RegionStat ` set (build_cityMap stn cs)"
    by (simp only: newRegionStats_set)
  then obtain p where p: "p \<in> set (build_cityMap stn cs)" and r: "r = to_RegionStat p"
    by blast
  obtain k e where ke: "p = (k, e)"
    by (cases p)
  with r have "RegionStat.city r = k"
    by (simp add: to_RegionStat_def)
  with p r ke have "r = to_RegionStat (RegionStat.city r, e)
      \<and> (RegionStat.city r, e) \<in> set (build_cityMap stn cs)"
    by simp
  then show ?thesis ..
qed

lemma stats_total:
  assumes "r \<in> set (newRegionStats stn cs)"
  shows "total_mw r = float_sum (map (coerced_capacity stn) (in_city (RegionStat.city r) cs))"
    and "site_count r = length (in_city (RegionStat.city r) cs)"
proof -
  from region_of_stats [OF assms] obtain e where
    r: "r = to_RegionStat (RegionStat.city r, e)"
    and e: "(RegionStat.city r, e) \<in> set (build_cityMap stn cs)"
    by blast
  from build_entry [OF e]
  have e': "e = foldl (entry_step stn) zero_entry (in_city (RegionStat.city r) cs)"
    by simp
  have "total_mw r = total_mw e" "site_count r = site_count e"
    by (subst r, simp add: to_RegionStat_def)+
  then show "total_mw r = float_sum (map (coerced_capacity stn) (in_city (RegionStat.city r) cs))"
    and "site_count r = length (in_city (RegionStat.city r) cs)"
    by (simp_all add: e' entry_total entry_count float_sum_def zero_entry_def)
qed

subsection \<open>Site counts\<close>






subsection \<open>Sums without rounding\<close>








subsection \<open>Sums of non-negative capacities\<close>

lemma js_nonneg_iff: "js_nonneg x = (x = PInf \<or> (\<exists>k\<ge>0. x = Fin k))"
  by (cases x) (auto simp: js_nonneg_def js_ge_def)

lemma js_nonneg_fl: "0 \<le> k \<Longrightarrow> js_nonneg (fl k)"
  using overflow_bound_pos by (auto simp: js_nonneg_iff fl_def Let_def round53_zero)

lemma js_nonneg_add: "js_nonneg a \<Longrightarrow> js_nonneg b \<Longrightarrow> js_nonneg (js_add a b)"
proof -
  assume a: "js_nonneg a" and b: "js_nonneg b"
  show ?thesis
  proof (cases a; cases b)
    fix x y
    assume "a = Fin x" "b = Fin y"
    with a b have "0 \<le> x + y"
      by (simp add: js_nonneg_iff)
    then have "js_nonneg (fl (x + y))"
      by (rule js_nonneg_fl)
    with \<open>a = Fin x\<close> \<open>b = Fin y\<close> show ?thesis
      by simp
  qed (use a b in \<open>auto simp: js_nonneg_iff\<close>)
qed

lemma js_nonneg_foldl:
  "js_nonneg acc \<Longrightarrow> \<forall>x \<in> set xs. js_nonneg x \<Longrightarrow> js_nonneg (foldl js_add acc xs)"
  by (induction xs arbitrary: acc) (simp_all add: js_nonneg_add)

lemma js_nonneg_not_NaN: "js_nonneg x \<Longrightarrow> x \<noteq> NaN"
  by (auto simp: js_nonneg_iff)



text \<open>
  C6 (amended). When no city's \<open>total_mw\<close> is \<open>NaN\<close>, the RegionStat array is in descending
  order of \<open>total_mw\<close>; and no total is \<open>NaN\<close> when every coerced capacity is \<open>>= 0\<close>.
\<close>

theorem C6_sorted_descending:
  "((\<forall>r \<in> set (newRegionStats stn cs). total_mw r \<noteq> NaN) \<longrightarrow> descending (newRegionStats stn cs))
   \<and> ((\<forall>c \<in> set cs. js_nonneg (coerced_capacity stn c))
        \<longrightarrow> (\<forall>r \<in> set (newRegionStats stn cs). total_mw r \<noteq> NaN))"
proof (intro conjI impI ballI)
  assume ok: "\<forall>r \<in> set (newRegionStats stn cs). total_mw r \<noteq> NaN"
  show "descending (newRegionStats stn cs)"
  proof (cases "length cs = 0")
    case True
    then show ?thesis
      by (simp add: newRegionStats_def descending_def)
  next
    case False
    with ok have "\<forall>y \<in> set (map to_RegionStat (build_cityMap stn cs)). total_mw y \<noteq> NaN"
      by (simp add: newRegionStats_def set_js_sort)
    then have "sorted_wrt (\<lambda>a b. js_ge (total_mw a) (total_mw b))
                 (js_sort cmp_total (map to_RegionStat (build_cityMap stn cs)))"
      by (rule sorted_js_sort [rotated]) (simp add: cmp_total_def)
    with False show ?thesis
      by (simp add: newRegionStats_def descending_def)
  qed
next
  fix r
  assume nn: "\<forall>c \<in> set cs. js_nonneg (coerced_capacity stn c)"
    and r: "r \<in> set (newRegionStats stn cs)"
  have "\<forall>x \<in> set (map (coerced_capacity stn) (in_city (RegionStat.city r) cs)). js_nonneg x"
    using nn by (auto simp: in_city_def)
  moreover have "js_nonneg (Fin 0)"
    by (simp add: js_nonneg_iff)
  ultimately have "js_nonneg (float_sum (map (coerced_capacity stn) (in_city (RegionStat.city r) cs)))"
    unfolding float_sum_def by (rule js_nonneg_foldl [rotated])
  then have "js_nonneg (total_mw r)"
    by (simp only: stats_total(1) [OF r])
  then show "total_mw r \<noteq> NaN"
    by (rule js_nonneg_not_NaN)
qed

lemma chart_of_region_to_RegionStat: "chart_of_region \<circ> to_RegionStat = to_ChartDataPoint"
  by (auto simp: chart_of_region_def to_RegionStat_def to_ChartDataPoint_def)

lemma chart_sum_of_region: "chart_sum (chart_of_region r) = category_sum r"
  by (simp add: chart_sum_def chart_of_region_def category_sum_def)

lemma name_chart_of_region: "name \<circ> chart_of_region = RegionStat.city"
  by (auto simp: chart_of_region_def)

lemma newChartData_eq:
  "newChartData stn cs
   = (if length cs = 0 then []
      else js_sort cmp_chart (map chart_of_region (map to_RegionStat (build_cityMap stn cs))))"
  by (simp add: newChartData_def flip: chart_of_region_to_RegionStat)

text \<open>
  C7 (amended). The chart points are the RegionStats with their fields renamed, one for
  one; they stand in the same order, city for city, when for every city
  \<open>pv_mw + storage_mw + ev_mw + other_mw\<close>, as floating point adds it, equals \<open>total_mw\<close>.
\<close>

theorem C7_chart_order:
  "mset (newChartData stn cs) = mset (map chart_of_region (newRegionStats stn cs))
   \<and> ((\<forall>r \<in> set (newRegionStats stn cs). category_sum r = total_mw r)
        \<longrightarrow> newChartData stn cs = map chart_of_region (newRegionStats stn cs)
            \<and> map name (newChartData stn cs) = map RegionStat.city (newRegionStats stn cs))"
proof (intro conjI impI)
  show "mset (newChartData stn cs) = mset (map chart_of_region (newRegionStats stn cs))"
    by (simp add: newChartData_eq newRegionStats_def mset_js_sort multiset.map_comp)
next
  assume keys: "\<forall>r \<in> set (newRegionStats stn cs). category_sum r = total_mw r"
  show eq: "newChartData stn cs = map chart_of_region (newRegionStats stn cs)"
  proof (cases "length cs = 0")
    case True
    then show ?thesis
      by (simp add: newChartData_def newRegionStats_def)
  next
    case False
    let ?rs = "map to_RegionStat (build_cityMap stn cs)"
    from keys False have k: "\<forall>r \<in> set ?rs. category_sum r = total_mw r"
      by (simp add: newRegionStats_def set_js_sort)
    have "js_sort cmp_chart (map chart_of_region ?rs) = map chart_of_region (js_sort cmp_total ?rs)"
    proof (rule js_sort_map, intro ballI)
      fix a b
      assume "a \<in> set ?rs" "b \<in> set ?rs"
      with k have "category_sum a = total_mw a" "category_sum b = total_mw b"
        by blast+
      then have "cmp_chart (chart_of_region a) (chart_of_region b) = cmp_total a b"
        by (simp add: cmp_chart_def cmp_total_def chart_sum_of_region)
      then show "js_positive (cmp_chart (chart_of_region a) (chart_of_region b))
                 = js_positive (cmp_total a b)"
        by simp
    qed
    with False show ?thesis
      by (simp add: newChartData_eq newRegionStats_def)
  qed
  show "map name (newChartData stn cs) = map RegionStat.city (newRegionStats stn cs)"
    by (simp add: eq name_chart_of_region)
qed

section \<open>Aggregation: examples\<close>

lemma js_add_zero_dbl:
  "js_add (Fin 0) (dbl b e) = js_add (dbl 0 e) (dbl b e)"
  "js_add (dbl a e) (Fin 0) = js_add (dbl a e) (dbl 0 e)"
  by (simp_all add: dbl_zero)

lemma js_add_special_dbl:
  "js_add (dbl a e) NaN = NaN" "js_add NaN x = NaN"
  "js_add (dbl a e) PInf = PInf" "js_add PInf (dbl a e) = PInf"
  "js_add (dbl a e) NInf = NInf" "js_add NInf (dbl a e) = NInf"
  by (simp_all add: dbl_def)

lemma js_positive_special: "js_positive NaN = False" "js_positive PInf = True" "js_positive NInf = False"
  by (simp_all add: js_positive_def)

lemmas number_eval =
  js_add_dbl js_add_zero_dbl js_add_special_dbl js_positive_special js_positive_dbl js_neg_dbl
  dbl_eq_iff dbl_eq_zero_iff dbl_not_special fl_zero js_sub_def
  round53_def round_shift_def Let_def compute_floorlog or_zero_def

lemmas aggregation_eval =
  newRegionStats_def newChartData_def build_cityMap_def accumulate_def map_has_def map_modify_def
  add_category_def zero_entry_def js_sort_def to_RegionStat_def to_ChartDataPoint_def
  cmp_total_def cmp_chart_def chart_sum_def category_sum_def
  customer_def blank_customer_def solar_marker_def storage_marker_def ev_marker_def
  city_A_def city_B_def city_C_def pilot_type_def

lemmas double_names =
  d0_1_def d0_2_def d0_3_def d0_3_up_def d0_5_def d0_6_def d0_6_up_def

text \<open>The numbers of the examples are doubles.\<close>

lemma is_double_dbl:
  assumes "- 1074 \<le> e" "e \<le> 960" "round53 (nat \<bar>m\<bar>) = nat \<bar>m\<bar>" "nat \<bar>m\<bar> < 2 ^ 64"
  shows "is_double (dbl m e)"
proof -
  have "js_add (dbl m e) (dbl 0 e) = dbl m e"
    using js_add_dbl [OF assms(1,2), of m 0] assms(3,4) by (simp split: if_splits)
  then have "js_add (dbl m e) (Fin 0) = dbl m e"
    by (simp add: dbl_zero)
  then have "is_double (js_add (dbl m e) (Fin 0)) = is_double (dbl m e)"
    by simp
  then show ?thesis
    by (simp only: is_double_add simp_thms)
qed

lemma example_doubles:
  "list_all is_double [d0_1, d0_2, d0_3, d0_3_up, d0_5, d0_6, d0_6_up]"
  by (simp add: double_names is_double_dbl round53_def round_shift_def Let_def compute_floorlog)


lemma stats_order:
  "newRegionStats stn_none order_customers
   = [\<lparr> site_count = 3, pv_mw = d0_1, storage_mw = d0_5, ev_mw = Fin 0, other_mw = Fin 0,
         total_mw = d0_6_up, RegionStat.city = city_A \<rparr>,
      \<lparr> site_count = 3, pv_mw = d0_3_up, storage_mw = d0_3, ev_mw = Fin 0, other_mw = Fin 0,
         total_mw = d0_6, RegionStat.city = city_B \<rparr>]"
  by (simp add: order_customers_def rounding_customers_def aggregation_eval number_eval
      double_names)

lemma chart_order:
  "newChartData stn_none order_customers
   = [\<lparr> name = city_B, pv = d0_3_up, storage = d0_3, ev = Fin 0, other = Fin 0 \<rparr>,
      \<lparr> name = city_A, pv = d0_1, storage = d0_5, ev = Fin 0, other = Fin 0 \<rparr>]"
  by (simp add: order_customers_def rounding_customers_def aggregation_eval number_eval
      double_names)

lemma stats_whole:
  "newRegionStats stn_none whole_customers
   = [\<lparr> site_count = 2, pv_mw = dbl 30 0, storage_mw = dbl 20 0, ev_mw = Fin 0,
         other_mw = Fin 0, total_mw = dbl 50 0, RegionStat.city = city_B \<rparr>,
      \<lparr> site_count = 1, pv_mw = Fin 0, storage_mw = Fin 0, ev_mw = dbl 30 0,
         other_mw = Fin 0, total_mw = dbl 30 0, RegionStat.city = city_C \<rparr>,
      \<lparr> site_count = 1, pv_mw = dbl 10 0, storage_mw = Fin 0, ev_mw = Fin 0,
         other_mw = Fin 0, total_mw = dbl 10 0, RegionStat.city = city_A \<rparr>]"
  by (simp add: whole_customers_def aggregation_eval number_eval)

lemma stats_nan:
  "newRegionStats stn_none nan_customers
   = [\<lparr> site_count = 2, pv_mw = Fin 0, storage_mw = Fin 0, ev_mw = Fin 0,
         other_mw = NaN, total_mw = NaN, RegionStat.city = city_A \<rparr>,
      \<lparr> site_count = 1, pv_mw = Fin 0, storage_mw = Fin 0, ev_mw = Fin 0,
         other_mw = dbl 1 0, total_mw = dbl 1 0, RegionStat.city = city_B \<rparr>]"
  by (simp add: nan_customers_def aggregation_eval number_eval)




lemma js_nonneg_dbl: "js_nonneg (dbl a e) = (0 \<le> a)"
  by (auto simp: js_nonneg_iff dbl_def zero_le_mult_iff)

theorem C6_sorted_descending_witness:
  "list_all (\<lambda>c. js_nonneg (coerced_capacity stn_none c)) whole_customers
   \<and> map RegionStat.city (newRegionStats stn_none whole_customers) = [city_B, city_C, city_A]
   \<and> map total_mw (newRegionStats stn_none whole_customers) = [dbl 50 0, dbl 30 0, dbl 10 0]
   \<and> descending (newRegionStats stn_none whole_customers)"
proof -
  have nn: "list_all (\<lambda>c. js_nonneg (coerced_capacity stn_none c)) whole_customers"
    by (simp add: whole_customers_def coerced_capacity_def customer_def blank_customer_def
        or_zero_def dbl_not_special dbl_eq_zero_iff js_nonneg_dbl)
  then have "\<forall>c \<in> set whole_customers. js_nonneg (coerced_capacity stn_none c)"
    by (simp add: list_all_iff)
  with C6_sorted_descending [of stn_none whole_customers]
  have "descending (newRegionStats stn_none whole_customers)"
    by blast
  with nn show ?thesis
    by (simp add: stats_whole)
qed

text \<open>
  C6 as stated fails. The total of a city with the capacities \<open>Infinity\<close> and \<open>-Infinity\<close> is
  \<open>NaN\<close>; the comparison function returns \<open>NaN\<close> for it, the sort leaves it in front, and \<open>NaN >= 1\<close>
  is false.
\<close>

theorem C6_counterexample:
  "map total_mw (newRegionStats stn_none nan_customers) = [NaN, dbl 1 0]
   \<and> \<not> js_ge NaN (dbl 1 0)
   \<and> \<not> descending (newRegionStats stn_none nan_customers)"
  by (simp add: stats_nan descending_def js_ge_def)

theorem C7_chart_order_witness:
  "map category_sum (newRegionStats stn_none whole_customers)
     = map total_mw (newRegionStats stn_none whole_customers)
   \<and> newChartData stn_none whole_customers
       = map chart_of_region (newRegionStats stn_none whole_customers)
   \<and> map name (newChartData stn_none whole_customers) = [city_B, city_C, city_A]"
proof -
  have keys: "map category_sum (newRegionStats stn_none whole_customers)
     = map total_mw (newRegionStats stn_none whole_customers)"
    by (simp add: stats_whole category_sum_def number_eval)
  then have "\<forall>r \<in> set (newRegionStats stn_none whole_customers). category_sum r = total_mw r"
    by (simp add: map_eq_conv)
  with C7_chart_order [of stn_none whole_customers]
  have "newChartData stn_none whole_customers
          = map chart_of_region (newRegionStats stn_none whole_customers)"
    and "map name (newChartData stn_none whole_customers)
          = map RegionStat.city (newRegionStats stn_none whole_customers)"
    by blast+
  with keys show ?thesis
    by (simp add: stats_whole)
qed

text \<open>
  C7 as stated fails. City A has the total \<open>0.6000000000000001\<close> and the category sum \<open>0.6\<close>;
  city B has the total \<open>0.6\<close> and the category sum \<open>0.6000000000000001\<close>. The table lists A
  before B, the chart B before A.
\<close>

theorem C7_counterexample:
  "list_all is_double [d0_1, d0_2, d0_3]
   \<and> map RegionStat.city (newRegionStats stn_none order_customers) = [city_A, city_B]
   \<and> map name (newChartData stn_none order_customers) = [city_B, city_A]
   \<and> city_A \<noteq> city_B"
proof -
  have "list_all is_double [d0_1, d0_2, d0_3]"
    using example_doubles by simp
  then show ?thesis
    by (simp add: stats_order chart_order city_A_def city_B_def)
qed

lemma contains_pilot: "contains pilot_type solar_marker" "contains pilot_type storage_marker"
  by (simp_all add: pilot_type_def solar_marker_def storage_marker_def flip: str_includes_iff)

theorem C2_classification_witness:
  "contains pilot_type solar_marker \<and> contains pilot_type storage_marker
   \<and> classify pilot_type = Solar
   \<and> map_get (accumulate stn_none [] (customer city_A pilot_type (JNumber (dbl 5 0)))) city_A
       = Some \<lparr> site_count = 1, pv_mw = dbl 5 0, storage_mw = Fin 0, ev_mw = Fin 0,
                other_mw = Fin 0, total_mw = dbl 5 0 \<rparr>
   \<and> classify [] = Other"
proof -
  note inst = C2_classification
    [of "[]" "customer city_A pilot_type (JNumber (dbl 5 0))" stn_none pilot_type]
  from inst contains_pilot have solar: "classify pilot_type = Solar"
    by blast
  from inst have other: "classify [] = Other"
    by blast
  have c: "Customer.city (customer city_A pilot_type (JNumber (dbl 5 0))) = city_A"
    "type_string (customer city_A pilot_type (JNumber (dbl 5 0))) = pilot_type"
    "coerced_capacity stn_none (customer city_A pilot_type (JNumber (dbl 5 0))) = dbl 5 0"
    by (simp_all add: customer_def blank_customer_def type_string_def or_empty_def
        coerced_capacity_def or_zero_def dbl_not_special dbl_eq_zero_iff)
  from inst have "map_get (accumulate stn_none [] (customer city_A pilot_type (JNumber (dbl 5 0)))) city_A
       = Some \<lparr> site_count = 1, pv_mw = dbl 5 0, storage_mw = Fin 0, ev_mw = Fin 0,
                other_mw = Fin 0, total_mw = dbl 5 0 \<rparr>"
    by (simp add: c solar Let_def entry_or_zero_def map_get_def zero_entry_def number_eval)
  with solar other contains_pilot show ?thesis
    by simp
qed

theorem C8_failed_coercion_witness:
  "Number stn_none JUndefined = NaN
   \<and> build_cityMap stn_none
        ([customer city_A solar_marker (JNumber (dbl 5 0))] @ [customer city_A solar_marker JUndefined])
      = [(city_A, \<lparr> site_count = 2, pv_mw = dbl 5 0, storage_mw = Fin 0, ev_mw = Fin 0,
                     other_mw = Fin 0, total_mw = dbl 5 0 \<rparr>)]
   \<and> Number stn_none (JString [0x61]) = NaN
   \<and> build_cityMap stn_none ([] @ [customer city_B [] (JString [0x61])])
      = [(city_B, \<lparr> site_count = 1, pv_mw = Fin 0, storage_mw = Fin 0, ev_mw = Fin 0,
                     other_mw = Fin 0, total_mw = Fin 0 \<rparr>)]"
proof -
  have a: "Number stn_none (Customer.capacity_mw (customer city_A solar_marker JUndefined)) = NaN"
    by (simp add: customer_def blank_customer_def)
  have b: "Number stn_none (Customer.capacity_mw (customer city_B [] (JString [0x61]))) = NaN"
    by (simp add: customer_def blank_customer_def stn_none_def)
  have one: "build_cityMap stn_none [customer city_A solar_marker (JNumber (dbl 5 0))]
      = [(city_A, \<lparr> site_count = 1, pv_mw = dbl 5 0, storage_mw = Fin 0, ev_mw = Fin 0,
                     other_mw = Fin 0, total_mw = dbl 5 0 \<rparr>)]"
    by (simp add: aggregation_eval number_eval)
  note first = C8_failed_coercion
    [OF a, of "[customer city_A solar_marker (JNumber (dbl 5 0))]", unfolded one]
  have "build_cityMap stn_none
        ([customer city_A solar_marker (JNumber (dbl 5 0))] @ [customer city_A solar_marker JUndefined])
      = [(city_A, \<lparr> site_count = 2, pv_mw = dbl 5 0, storage_mw = Fin 0, ev_mw = Fin 0,
                     other_mw = Fin 0, total_mw = dbl 5 0 \<rparr>)]"
    using first by (simp add: map_has_def map_modify_def customer_def blank_customer_def)
  moreover from C8_failed_coercion [OF b, of "[]"]
  have "build_cityMap stn_none ([] @ [customer city_B [] (JString [0x61])])
      = [(city_B, \<lparr> site_count = 1, pv_mw = Fin 0, storage_mw = Fin 0, ev_mw = Fin 0,
                     other_mw = Fin 0, total_mw = Fin 0 \<rparr>)]"
    by (simp add: build_cityMap_Nil map_has_def map_modify_def customer_def blank_customer_def
        zero_entry_def)
  ultimately show ?thesis
    by (simp add: stn_none_def)
qed

end
